theory Spec2Isabelle
  imports Main "HOL-Library.Sublist"
begin

section \<open>Python strings\<close>

text \<open>
  A Python \<open>str\<close> is modelled as a \<open>string\<close> whose characters stand for ASCII code
  points. The case mappings below are the ASCII part of Python's \<open>str.upper\<close>,
  \<open>str.lower\<close>; outside the letters \<open>a\<close>..\<open>z\<close>, \<open>A\<close>..\<open>Z\<close> they are the identity.
  \<open>\d\<close> is read as the ASCII digits and \<open>str.strip\<close> removes the ASCII characters
  for which \<open>str.isspace\<close> holds.
\<close>

definition newline :: char where
  "newline = CHR 0x0A"

definition dquote :: char where
  "dquote = CHR 0x22"

definition lowers :: string where
  "lowers = ''abcdefghijklmnopqrstuvwxyz''"

definition uppers :: string where
  "uppers = ''ABCDEFGHIJKLMNOPQRSTUVWXYZ''"

definition to_upper :: "char \<Rightarrow> char" where
  "to_upper c = (case map_of (zip lowers uppers) c of Some u \<Rightarrow> u | None \<Rightarrow> c)"

definition to_lower :: "char \<Rightarrow> char" where
  "to_lower c = (case map_of (zip uppers lowers) c of Some l \<Rightarrow> l | None \<Rightarrow> c)"

definition is_cased :: "char \<Rightarrow> bool" where
  "is_cased c = (c \<in> set lowers \<or> c \<in> set uppers)"

definition is_digit :: "char \<Rightarrow> bool" where
  "is_digit c = (c \<in> set ''0123456789'')"

definition is_space :: "char \<Rightarrow> bool" where
  "is_space c = (c \<in> set [CHR 0x09, CHR 0x0A, CHR 0x0B, CHR 0x0C, CHR 0x0D,
                            CHR 0x1C, CHR 0x1D, CHR 0x1E, CHR 0x1F, CHR 0x20])"

text \<open>\<open>sub in s\<close>: some position of \<open>s\<close> starts with \<open>sub\<close>.\<close>

fun py_in :: "string \<Rightarrow> string \<Rightarrow> bool" where
  "py_in sub [] = (sub = [])"
| "py_in sub (c # cs) = (prefix sub (c # cs) \<or> py_in sub cs)"

text \<open>
  \<open>s.replace(old, new)\<close>: every non-overlapping occurrence of \<open>old\<close>, found from the
  left, is replaced; with an empty \<open>old\<close>, \<open>new\<close> is put before every character and
  at the end.
\<close>

function py_replace :: "string \<Rightarrow> string \<Rightarrow> string \<Rightarrow> string" where
  "py_replace old new s =
     (if old = [] then concat (map (\<lambda>c. new @ [c]) s) @ new
      else if s = [] then []
      else if prefix old s then new @ py_replace old new (drop (length old) s)
      else hd s # py_replace old new (tl s))"
  by pat_completeness auto
termination
  by (relation "measure (\<lambda>(old, new, s). length s)") auto

declare py_replace.simps [simp del]

definition py_strip :: "string \<Rightarrow> string" where
  "py_strip s = rev (dropWhile is_space (rev (dropWhile is_space s)))"

definition py_lower :: "string \<Rightarrow> string" where
  "py_lower s = map to_lower s"

text \<open>\<open>s.capitalize()\<close>: the first character upper-cased, the others lower-cased.\<close>

fun py_capitalize :: "string \<Rightarrow> string" where
  "py_capitalize [] = []"
| "py_capitalize (c # cs) = to_upper c # map to_lower cs"

text \<open>
  \<open>s.title()\<close>: a cased character is upper-cased when the character before it is not
  cased (or there is none), and lower-cased otherwise.
\<close>

fun title_from :: "bool \<Rightarrow> string \<Rightarrow> string" where
  "title_from prev [] = []"
| "title_from prev (c # cs) =
     (if prev then to_lower c else to_upper c) # title_from (is_cased c) cs"

definition py_title :: "string \<Rightarrow> string" where
  "py_title s = title_from False s"

fun string_of_nat :: "nat \<Rightarrow> string" where
  "string_of_nat n =
     (if n < 10 then [''0123456789'' ! n]
      else string_of_nat (n div 10) @ [''0123456789'' ! (n mod 10)])"

declare string_of_nat.simps [simp del]

definition string_of_int :: "int \<Rightarrow> string" where
  "string_of_int i = (if i < 0 then CHR ''-'' # string_of_nat (nat (- i)) else string_of_nat (nat i))"

subsection \<open>Regular-expression search\<close>

text \<open>
  \<open>re.search\<close> tries the pattern at every position from the left, the end of the
  string included, and returns the first match. The pattern is given as the function
  that attempts a match at the start of its argument and returns group 1.
\<close>

fun re_search :: "(string \<Rightarrow> 'a option) \<Rightarrow> string \<Rightarrow> 'a option" where
  "re_search m [] = m []"
| "re_search m (c # cs) = (case m (c # cs) of Some g \<Rightarrow> Some g | None \<Rightarrow> re_search m cs)"

section \<open>Paths\<close>

text \<open>
  A \<open>Path\<close> is modelled by the string \<open>str(path)\<close>; \<open>name\<close> is its part after the last
  \<open>/\<close>, and \<open>stem\<close> is the name without its last suffix (the name itself when the last
  dot is its first or its last character, or when it has none).
\<close>

definition path_name :: "string \<Rightarrow> string" where
  "path_name p = rev (takeWhile (\<lambda>c. c \<noteq> CHR ''/'') (rev p))"

definition path_stem :: "string \<Rightarrow> string" where
  "path_stem p =
     (let name = path_name p;
          suf = takeWhile (\<lambda>c. c \<noteq> CHR ''.'') (rev name);
          i = length name - length suf - 1
      in if CHR ''.'' \<in> set name \<and> 0 < i \<and> suf \<noteq> [] then take i name else name)"

section \<open>Metadata extraction\<close>

record document =
  path :: string
  title :: string
  category :: string
  content :: string

text \<open>The \<open>if\<close>/\<open>elif\<close> chain of \<open>extract_metadata\<close> that sets \<open>category\<close>.\<close>

definition category_of :: "string \<Rightarrow> string" where
  "category_of file_path =
     (if py_in ''phases'' file_path then ''phase''
      else if py_in ''stages'' file_path then ''stage''
      else if py_in ''reports'' file_path then ''report''
      else if path_name file_path = ''client_spec.md'' then ''spec''
      else if path_name file_path = ''project_roadmap.md'' then ''roadmap''
      else if path_name file_path = ''progress.md'' then ''progress''
      else ''document'')"

text \<open>
  The pattern \<open># (.+?)$\<close> with \<open>re.MULTILINE\<close>, attempted at one position: a hash, a
  space, then at least one character other than a newline, lazily extended until the
  end of the line. Since \<open>.\<close> does not match a newline, group 1 is the rest of the line,
  and the attempt fails when that rest is empty.
\<close>

definition heading_at :: "string \<Rightarrow> string option" where
  "heading_at s =
     (if prefix ''# '' s
      then (let line = takeWhile (\<lambda>c. c \<noteq> newline) (drop 2 s)
            in if line \<noteq> [] then Some line else None)
      else None)"

definition default_title :: "string \<Rightarrow> string" where
  "default_title file_path =
     py_title (py_replace ''_'' '' '' (py_replace ''-'' '' '' (path_stem file_path)))"

definition title_of :: "string \<Rightarrow> string \<Rightarrow> string" where
  "title_of file_path text =
     (case re_search heading_at text of
        Some g \<Rightarrow> py_strip g
      | None \<Rightarrow> default_title file_path)"

text \<open>
  The file system is a list of regular files, path and text, in the order in which the
  host enumerates them; directories are implicit. Printed lines are collected in
  \<open>out\<close>. Reading a path that holds no file is the failure branch of
  \<open>extract_metadata\<close>, which returns \<open>None\<close> (its diagnostic line is not modelled);
  decoding errors are outside the model.
\<close>

record world =
  files :: "(string \<times> string) list"
  out :: "string list"

definition exists :: "world \<Rightarrow> string \<Rightarrow> bool" where
  "exists w p = (map_of (files w) p \<noteq> None)"

definition read_text :: "world \<Rightarrow> string \<Rightarrow> string option" where
  "read_text w p = map_of (files w) p"

definition write_text :: "string \<Rightarrow> string \<Rightarrow> world \<Rightarrow> world" where
  "write_text p text w =
     w\<lparr>files := (if map_of (files w) p = None then files w @ [(p, text)]
                 else map (\<lambda>(q, old). if q = p then (q, text) else (q, old)) (files w))\<rparr>"

definition print :: "string \<Rightarrow> world \<Rightarrow> world" where
  "print line w = w\<lparr>out := out w @ [line]\<rparr>"

definition extract_metadata :: "world \<Rightarrow> string \<Rightarrow> document option" where
  "extract_metadata w file_path =
     (case read_text w file_path of
        None \<Rightarrow> None
      | Some text \<Rightarrow>
          Some \<lparr>path = file_path, title = title_of file_path text,
                category = category_of file_path, content = text\<rparr>)"

section \<open>Relationship inference\<close>

datatype entry =
    Entity string string "string list"
  | Relation string string string

text \<open>
  \<open>Entity name entityType observations\<close> and \<open>Relation from to relationType\<close> are
  the two dictionaries that \<open>create_memory_entries\<close> appends, the constructor being
  their \<open>type\<close> field.
\<close>

fun entity_loop :: "document option list \<Rightarrow> entry list \<Rightarrow> entry list" where
  "entity_loop [] memory_entries = memory_entries"
| "entity_loop (None # documents) memory_entries = entity_loop documents memory_entries"
| "entity_loop (Some doc # documents) memory_entries =
     entity_loop documents
       (memory_entries @ [Entity (title doc) (py_capitalize (category doc)) [content doc]])"

text \<open>\<open>next((d for d in documents if d and d["category"] == c), None)\<close>\<close>

fun first_of_category :: "string \<Rightarrow> document option list \<Rightarrow> document option" where
  "first_of_category c [] = None"
| "first_of_category c (None # documents) = first_of_category c documents"
| "first_of_category c (Some d # documents) =
     (if category d = c then Some d else first_of_category c documents)"

text \<open>\<open>[d for d in documents if d and d["category"] == c]\<close>\<close>

fun all_of_category :: "string \<Rightarrow> document option list \<Rightarrow> document list" where
  "all_of_category c [] = []"
| "all_of_category c (None # documents) = all_of_category c documents"
| "all_of_category c (Some d # documents) =
     (if category d = c then d # all_of_category c documents else all_of_category c documents)"

fun tracks_loop :: "document \<Rightarrow> document option list \<Rightarrow> entry list \<Rightarrow> entry list" where
  "tracks_loop progress [] memory_entries = memory_entries"
| "tracks_loop progress (None # documents) memory_entries =
     tracks_loop progress documents memory_entries"
| "tracks_loop progress (Some doc # documents) memory_entries =
     tracks_loop progress documents
       (if doc \<noteq> progress
        then memory_entries @ [Relation (title progress) (title doc) ''tracks'']
        else memory_entries)"

fun contains_loop :: "document \<Rightarrow> document list \<Rightarrow> entry list \<Rightarrow> entry list" where
  "contains_loop roadmap [] memory_entries = memory_entries"
| "contains_loop roadmap (phase # phases) memory_entries =
     contains_loop roadmap phases
       (memory_entries @ [Relation (title roadmap) (title phase) ''contains''])"

text \<open>
  \<open>Stage (\d+)[._]\<close> attempted at one position. The greedy \<open>\d+\<close> takes the whole run
  of digits; giving some back leaves a digit where \<open>[._]\<close> is wanted, so the attempt
  succeeds exactly when the run is not empty and a dot or underscore follows it.
\<close>

definition stage_num_at :: "string \<Rightarrow> string option" where
  "stage_num_at s =
     (if prefix ''Stage '' s
      then (let digits = takeWhile is_digit (drop 6 s);
                after = dropWhile is_digit (drop 6 s)
            in if digits \<noteq> [] \<and> after \<noteq> [] \<and> (hd after = CHR ''.'' \<or> hd after = CHR ''_'')
               then Some digits else None)
      else None)"

text \<open>
  \<open>Stage (\d+[._]\d+)\<close> attempted at one position: the whole first run of digits, a
  dot or underscore, and the whole second run of digits, both runs not empty.
\<close>

definition stage_id_at :: "string \<Rightarrow> string option" where
  "stage_id_at s =
     (if prefix ''Stage '' s
      then (let digits = takeWhile is_digit (drop 6 s);
                after = dropWhile is_digit (drop 6 s)
            in case after of
                 [] \<Rightarrow> None
               | sep # after2 \<Rightarrow>
                   (let digits2 = takeWhile is_digit after2
                    in if digits \<noteq> [] \<and> (sep = CHR ''.'' \<or> sep = CHR ''_'') \<and> digits2 \<noteq> []
                       then Some (digits @ [sep] @ digits2) else None))
      else None)"

fun implements_inner :: "document \<Rightarrow> string \<Rightarrow> document list \<Rightarrow> entry list \<Rightarrow> entry list" where
  "implements_inner stage phase_num [] memory_entries = memory_entries"
| "implements_inner stage phase_num (phase # phases) memory_entries =
     implements_inner stage phase_num phases
       (if py_in (''Phase '' @ phase_num) (title phase)
        then memory_entries @ [Relation (title phase) (title stage) ''implements'']
        else memory_entries)"

fun implements_loop :: "document list \<Rightarrow> document list \<Rightarrow> entry list \<Rightarrow> entry list" where
  "implements_loop [] phases memory_entries = memory_entries"
| "implements_loop (stage # stages) phases memory_entries =
     implements_loop stages phases
       (case re_search stage_num_at (title stage) of
          Some phase_num \<Rightarrow> implements_inner stage phase_num phases memory_entries
        | None \<Rightarrow> memory_entries)"

fun completed_inner :: "document \<Rightarrow> document list \<Rightarrow> entry list \<Rightarrow> entry list" where
  "completed_inner stage [] memory_entries = memory_entries"
| "completed_inner stage (report # reports) memory_entries =
     completed_inner stage reports
       (case re_search stage_id_at (title stage) of
          Some stage_id \<Rightarrow>
            (if py_in stage_id (title report)
             then memory_entries @ [Relation (title stage) (title report) ''completed_by'']
             else memory_entries)
        | None \<Rightarrow> memory_entries)"

fun completed_loop :: "document list \<Rightarrow> document list \<Rightarrow> entry list \<Rightarrow> entry list" where
  "completed_loop [] reports memory_entries = memory_entries"
| "completed_loop (stage # stages) reports memory_entries =
     completed_loop stages reports (completed_inner stage reports memory_entries)"

definition create_memory_entries :: "document option list \<Rightarrow> entry list" where
  "create_memory_entries documents =
     (let memory_entries = entity_loop documents [];
          spec = first_of_category ''spec'' documents;
          roadmap = first_of_category ''roadmap'' documents;
          progress = first_of_category ''progress'' documents;
          phases = all_of_category ''phase'' documents;
          stages = all_of_category ''stage'' documents;
          reports = all_of_category ''report'' documents;
          memory_entries =
            (case (spec, roadmap) of
               (Some s, Some r) \<Rightarrow> memory_entries @ [Relation (title s) (title r) ''informs'']
             | _ \<Rightarrow> memory_entries);
          memory_entries =
            (case progress of
               Some p \<Rightarrow> tracks_loop p documents memory_entries
             | None \<Rightarrow> memory_entries);
          memory_entries =
            (case roadmap of
               Some r \<Rightarrow> contains_loop r phases memory_entries
             | None \<Rightarrow> memory_entries);
          memory_entries = implements_loop stages phases memory_entries;
          memory_entries = completed_loop stages reports memory_entries
      in memory_entries)"

section \<open>Configuration\<close>

definition PHASES :: string where "PHASES = ''docs/phases''"
definition STAGES :: string where "STAGES = ''docs/stages''"
definition REPORTS :: string where "REPORTS = ''docs/reports''"
definition PROGRESS :: string where "PROGRESS = ''docs/progress.md''"
definition CLIENT_SPEC :: string where "CLIENT_SPEC = ''docs/client_spec.md''"
definition ROADMAP :: string where "ROADMAP = ''docs/project_roadmap.md''"
definition TEMPLATES :: string where "TEMPLATES = ''templates''"

text \<open>
  What the module reads from its host at start-up: the home directory and the working
  directory (absolute, without a final \<open>/\<close>), the working directory's name, and whether
  the directory that would hold the assistant's memory file exists. Creating
  directories (\<open>mkdir\<close> with \<open>exist_ok\<close>) writes no file and is left out.
\<close>

record config =
  HOME :: string
  CWD :: string
  PROJECT :: string
  claude_parent_exists :: bool

definition CLAUDE_MEM :: "config \<Rightarrow> string" where
  "CLAUDE_MEM cfg =
     HOME cfg @ ''/Library/Application Support/Claude/'' @ PROJECT cfg @ ''/memory.jsonl''"

definition LOCAL_MEM :: "config \<Rightarrow> string" where
  "LOCAL_MEM cfg = CWD cfg @ ''/.claude/memory.jsonl''"

definition choose_memory :: "config \<Rightarrow> string" where
  "choose_memory cfg = (if claude_parent_exists cfg then CLAUDE_MEM cfg else LOCAL_MEM cfg)"

section \<open>Document locator\<close>

text \<open>
  \<open>directory.glob("**/*.md")\<close> filtered by \<open>is_file\<close>: the files below the directory, at
  any depth, whose name ends in \<open>.md\<close>, in the host's order.
\<close>

definition glob_md :: "world \<Rightarrow> string \<Rightarrow> string list" where
  "glob_md w directory =
     filter (\<lambda>p. prefix (directory @ ''/'') p \<and> suffix ''.md'' (path_name p)) (map fst (files w))"

definition get_all_docs :: "world \<Rightarrow> string list" where
  "get_all_docs w =
     filter (exists w) [CLIENT_SPEC, ROADMAP, PROGRESS]
     @ concat (map (glob_md w) [PHASES, STAGES, REPORTS])"

section \<open>Memory writer\<close>

text \<open>
  \<open>json.dumps\<close> with its defaults, on the two shapes of dictionary that are written:
  keys in insertion order, \<open>", "\<close> and \<open>": "\<close> as separators, and strings escaped as
  \<open>ensure_ascii\<close> does.
\<close>

definition hex_digit :: "nat \<Rightarrow> char" where
  "hex_digit n = ''0123456789abcdef'' ! n"

definition json_escape :: "char \<Rightarrow> string" where
  "json_escape c =
     (if c = dquote then [CHR 0x5C, dquote]
      else if c = CHR 0x5C then [CHR 0x5C, CHR 0x5C]
      else if c = newline then [CHR 0x5C, CHR ''n'']
      else if c = CHR 0x0D then [CHR 0x5C, CHR ''r'']
      else if c = CHR 0x09 then [CHR 0x5C, CHR ''t'']
      else if c = CHR 0x08 then [CHR 0x5C, CHR ''b'']
      else if c = CHR 0x0C then [CHR 0x5C, CHR ''f'']
      else if 32 \<le> (of_char c :: nat) \<and> (of_char c :: nat) \<le> 126 then [c]
      else [CHR 0x5C, CHR ''u'', CHR ''0'', CHR ''0'',
            hex_digit ((of_char c :: nat) div 16), hex_digit ((of_char c :: nat) mod 16)])"

definition json_string :: "string \<Rightarrow> string" where
  "json_string s = dquote # concat (map json_escape s) @ [dquote]"

fun json_list :: "string list \<Rightarrow> string" where
  "json_list [] = []"
| "json_list [x] = json_string x"
| "json_list (x # y # ys) = json_string x @ '', '' @ json_list (y # ys)"

fun json_dumps :: "entry \<Rightarrow> string" where
  "json_dumps (Entity name entityType observations) =
     ''{'' @ json_string ''type'' @ '': '' @ json_string ''entity''
     @ '', '' @ json_string ''name'' @ '': '' @ json_string name
     @ '', '' @ json_string ''entityType'' @ '': '' @ json_string entityType
     @ '', '' @ json_string ''observations'' @ '': ['' @ json_list observations @ '']}''"
| "json_dumps (Relation from_title to_title relationType) =
     ''{'' @ json_string ''type'' @ '': '' @ json_string ''relation''
     @ '', '' @ json_string ''from'' @ '': '' @ json_string from_title
     @ '', '' @ json_string ''to'' @ '': '' @ json_string to_title
     @ '', '' @ json_string ''relationType'' @ '': '' @ json_string relationType @ ''}''"

definition memory_text :: "entry list \<Rightarrow> string" where
  "memory_text memory_entries = concat (map (\<lambda>entry. json_dumps entry @ [newline]) memory_entries)"

section \<open>Progress log\<close>

text \<open>
  \<open>updated: ".*?"\<close> attempted at one position: the literal, then the characters up to
  the next double quote, which must come before the end of the line. The result is
  the length of the match.
\<close>

definition updated_at :: "string \<Rightarrow> nat option" where
  "updated_at s =
     (if prefix (''updated: '' @ [dquote]) s
      then (let body = takeWhile (\<lambda>c. c \<noteq> dquote \<and> c \<noteq> newline) (drop 10 s)
            in case drop (10 + length body) s of
                 [] \<Rightarrow> None
               | c # rest \<Rightarrow> if c = dquote then Some (10 + length body + 1) else None)
      else None)"

text \<open>
  \<open>re.sub\<close> with that pattern: every match, found from the left, is replaced, and the
  search goes on after the match. The timestamp holds no backslash, so the
  replacement is taken literally.
\<close>

fun re_sub_updated :: "string \<Rightarrow> string \<Rightarrow> string" where
  "re_sub_updated repl [] = []"
| "re_sub_updated repl (c # cs) =
     (case updated_at (c # cs) of
        Some n \<Rightarrow> repl @ re_sub_updated repl (drop (n - 1) cs)
      | None \<Rightarrow> c # re_sub_updated repl cs)"

definition activity_marker :: string where
  "activity_marker = ''## Activity Log''"

definition sync_marker :: string where
  "sync_marker = ''## Memory Sync Log''"

text \<open>
  The insert-or-append step that \<open>update_progress_log\<close> performs twice, for the
  activity section and for the sync section.
\<close>

definition insert_or_append :: "string \<Rightarrow> string \<Rightarrow> string \<Rightarrow> string" where
  "insert_or_append marker entry text =
     (if py_in marker text
      then py_replace marker (marker @ [newline] @ entry) text
      else text @ [newline, newline] @ marker @ [newline] @ entry)"

definition progress_text :: "string \<Rightarrow> string \<Rightarrow> string \<Rightarrow> string" where
  "progress_text timestamp action text =
     (let activity_entry = ''- '' @ timestamp @ '': '' @ action;
          text = insert_or_append activity_marker activity_entry text;
          text =
            (if prefix ''Sync'' action
             then insert_or_append sync_marker
                    (''- '' @ timestamp @ '': Documentation synchronized'') text
             else text)
      in re_sub_updated (''updated: '' @ [dquote] @ timestamp @ [dquote]) text)"

text \<open>
  \<open>timestamp\<close> is what \<open>get_timestamp\<close> returns during the call. The \<open>except\<close> branch
  (a failing read or write of an existing file) is outside the model.
\<close>

definition update_progress_log :: "string \<Rightarrow> string \<Rightarrow> world \<Rightarrow> bool \<times> world" where
  "update_progress_log timestamp action w =
     (case read_text w PROGRESS of
        None \<Rightarrow> (False, w)
      | Some text \<Rightarrow> (True, write_text PROGRESS (progress_text timestamp action text) w))"

section \<open>Synchronisation\<close>

definition sync_memory :: "config \<Rightarrow> string \<Rightarrow> world \<Rightarrow> world" where
  "sync_memory cfg timestamp w0 =
     (let w = print (''Syncing documentation to memory for '' @ PROJECT cfg) w0;
          docs = get_all_docs w
      in if docs = [] then print ''No documentation found.'' w
         else
           (let w = print (''Found '' @ string_of_nat (length docs) @ '' documentation files'') w;
                documents = map (extract_metadata w) docs;
                valid_docs = filter (\<lambda>doc. doc \<noteq> None) documents;
                memory_entries = create_memory_entries valid_docs;
                mem_path = choose_memory cfg;
                w = write_text mem_path (memory_text memory_entries) w;
                w = print (''Synced '' @ string_of_nat (length memory_entries)
                           @ '' entries to '' @ mem_path) w
            in snd (update_progress_log timestamp
                      (''Synced '' @ string_of_nat (length valid_docs) @ '' documents to memory'') w)))"

section \<open>Stage creation and command dispatch\<close>

datatype outcome = Returned | Exited int | Raised

text \<open>
  What the claims do not look into is taken as given: \<open>str_format template phase
  stage name\<close> is Python's \<open>template.format(phase=phase, stage=stage, name=name)\<close>
  (\<open>None\<close> when it raises), \<open>STAGE_TMPL\<close> is the built-in stage template, and
  \<open>setup_framework\<close> and \<open>create_report\<close> are the two commands of \<open>main\<close> that no
  statement below is about.
\<close>

record externals =
  str_format :: "string \<Rightarrow> int \<Rightarrow> int \<Rightarrow> string \<Rightarrow> string option"
  STAGE_TMPL :: string
  setup_framework :: "world \<Rightarrow> outcome \<times> world"
  create_report :: "int \<Rightarrow> int \<Rightarrow> string option \<Rightarrow> world \<Rightarrow> outcome \<times> world"

definition stage_file_of :: "int \<Rightarrow> int \<Rightarrow> string \<Rightarrow> string" where
  "stage_file_of phase stage name =
     STAGES @ ''/'' @ ''stage'' @ string_of_int phase @ ''_'' @ string_of_int stage @ ''-''
     @ py_replace '' '' ''-'' (py_lower name) @ ''.md''"

definition create_stage ::
  "externals \<Rightarrow> string \<Rightarrow> int \<Rightarrow> int \<Rightarrow> string \<Rightarrow> world \<Rightarrow> outcome \<times> world" where
  "create_stage ext timestamp phase stage name w0 =
     (let stage_file = stage_file_of phase stage name
      in if exists w0 stage_file
         then (Returned, print (''Error: '' @ stage_file @ '' already exists.'') w0)
         else
           (let template_file = TEMPLATES @ ''/stage_template.md'';
                w = (if \<not> exists w0 template_file
                     then print (''Using built-in template (no file found at ''
                                 @ template_file @ '')'') w0
                     else w0);
                template = (case read_text w0 template_file of
                              None \<Rightarrow> STAGE_TMPL ext
                            | Some text \<Rightarrow> text)
            in case str_format ext template phase stage name of
                 None \<Rightarrow> (Raised, w)
               | Some text \<Rightarrow>
                   (let w = write_text stage_file text w;
                        w = print (''Created stage document: '' @ stage_file) w
                    in (Returned,
                        snd (update_progress_log timestamp
                               (''Created stage document: Stage '' @ string_of_int phase @ ''.''
                                @ string_of_int stage @ '': '' @ name) w)))))"

text \<open>The namespace that \<open>parse_args\<close> returns.\<close>

record args =
  arg_setup :: bool
  arg_sync :: bool
  arg_create_stage :: bool
  arg_create_report :: bool
  arg_phase :: "int option"
  arg_stage :: "int option"
  arg_name :: "string option"

text \<open>\<open>not x\<close> for an optional integer and for an optional string.\<close>

definition not_int :: "int option \<Rightarrow> bool" where
  "not_int x = (case x of None \<Rightarrow> True | Some n \<Rightarrow> n = 0)"

definition not_str :: "string option \<Rightarrow> bool" where
  "not_str x = (case x of None \<Rightarrow> True | Some s \<Rightarrow> s = [])"

definition stage_usage :: "string list" where
  "stage_usage =
     [''Error: phase, stage, and name are required to create a stage'',
      ''Example: python akro.py --create-stage --phase=1 --stage=1 --name=''
      @ [dquote] @ ''Project Setup'' @ [dquote]]"

definition report_usage :: "string list" where
  "report_usage =
     [''Error: phase and stage are required to create a report'',
      ''Example: python akro.py --create-report --phase=1 --stage=1'']"

definition general_usage :: "string list" where
  "general_usage =
     [''Akro - Document-Driven Development Framework'',
      newline # ''Usage:'',
      ''  python akro.py --setup                    Initialize the framework'',
      ''  python akro.py --sync                     Sync documentation to memory'',
      ''  python akro.py --create-stage [options]   Create a stage document'',
      ''  python akro.py --create-report [options]  Create a completion report'',
      newline # ''Examples:'',
      ''  python akro.py --setup'',
      ''  python akro.py --sync'',
      ''  python akro.py --create-stage --phase=1 --stage=1 --name=''
      @ [dquote] @ ''Project Setup'' @ [dquote],
      ''  python akro.py --create-report --phase=1 --stage=1'',
      newline # ''See README.md for more details on the methodology.'']"

definition print_all :: "string list \<Rightarrow> world \<Rightarrow> world" where
  "print_all lines w = fold print lines w"

definition main :: "externals \<Rightarrow> config \<Rightarrow> string \<Rightarrow> args \<Rightarrow> world \<Rightarrow> outcome \<times> world" where
  "main ext cfg timestamp a w =
     (if arg_setup a then setup_framework ext w
      else if arg_sync a then (Returned, sync_memory cfg timestamp w)
      else if arg_create_stage a then
        (if not_int (arg_phase a) \<or> not_int (arg_stage a) \<or> not_str (arg_name a)
         then (Exited 1, print_all stage_usage w)
         else create_stage ext timestamp (the (arg_phase a)) (the (arg_stage a))
                (the (arg_name a)) w)
      else if arg_create_report a then
        (if not_int (arg_phase a) \<or> not_int (arg_stage a)
         then (Exited 1, print_all report_usage w)
         else create_report ext (the (arg_phase a)) (the (arg_stage a)) (arg_name a) w)
      else (Exited 1, print_all general_usage w))"

section \<open>Vocabulary of the statements\<close>

text \<open>The category with its first letter in upper case, the other letters as they are.\<close>

fun cap_first :: "string \<Rightarrow> string" where
  "cap_first [] = []"
| "cap_first (c # cs) = to_upper c # cs"

text \<open>A document that \<open>extract_metadata\<close> returns for some file.\<close>

definition is_extracted :: "document \<Rightarrow> bool" where
  "is_extracted d =
     (title d = title_of (path d) (content d) \<and> category d = category_of (path d))"

fun is_relation :: "entry \<Rightarrow> bool" where
  "is_relation (Relation f t r) = True"
| "is_relation (Entity n t obs) = False"

fun rel_type :: "string \<Rightarrow> entry \<Rightarrow> bool" where
  "rel_type r (Relation f t r') = (r' = r)"
| "rel_type r (Entity n t obs) = False"

text \<open>
  The relations that one stage contributes under the rules \<open>implements\<close> and
  \<open>completed_by\<close>, given the phases and the reports.
\<close>

definition implements_of :: "document list \<Rightarrow> document \<Rightarrow> entry list" where
  "implements_of phases s =
     (case re_search stage_num_at (title s) of
        None \<Rightarrow> []
      | Some n \<Rightarrow> map (\<lambda>p. Relation (title p) (title s) ''implements'')
                     (filter (\<lambda>p. sublist (''Phase '' @ n) (title p)) phases))"

definition completed_of :: "document list \<Rightarrow> document \<Rightarrow> entry list" where
  "completed_of reports s =
     (case re_search stage_id_at (title s) of
        None \<Rightarrow> []
      | Some i \<Rightarrow> map (\<lambda>r. Relation (title s) (title r) ''completed_by'')
                     (filter (\<lambda>r. sublist i (title r)) reports))"

definition informs_of :: "document list \<Rightarrow> entry list" where
  "informs_of ds =
     (case (find (\<lambda>d. category d = ''spec'') ds, find (\<lambda>d. category d = ''roadmap'') ds) of
        (Some s, Some r) \<Rightarrow> [Relation (title s) (title r) ''informs'']
      | _ \<Rightarrow> [])"

definition tracks_of :: "document list \<Rightarrow> entry list" where
  "tracks_of ds =
     (case find (\<lambda>d. category d = ''progress'') ds of
        Some p \<Rightarrow> map (\<lambda>d. Relation (title p) (title d) ''tracks'') (filter (\<lambda>d. d \<noteq> p) ds)
      | None \<Rightarrow> [])"

definition contains_of :: "document list \<Rightarrow> entry list" where
  "contains_of ds =
     (case find (\<lambda>d. category d = ''roadmap'') ds of
        Some r \<Rightarrow> map (\<lambda>p. Relation (title r) (title p) ''contains'')
                     (filter (\<lambda>d. category d = ''phase'') ds)
      | None \<Rightarrow> [])"

text \<open>
  A string that starts with a hash, a space and a character other than a newline: the
  positions of a text at which the heading pattern matches.
\<close>

definition hash_space_text :: "string \<Rightarrow> bool" where
  "hash_space_text s =
     (case s of
        a # b # c # rest \<Rightarrow> a = CHR ''#'' \<and> b = CHR '' '' \<and> c \<noteq> newline
      | _ \<Rightarrow> False)"

text \<open>
  Inserting after the first occurrence of a marker only, as the specification words the
  progress-log update; the text is unchanged when the marker does not occur.
\<close>

fun spec_insert_after_first :: "string \<Rightarrow> string \<Rightarrow> string \<Rightarrow> string" where
  "spec_insert_after_first marker ins [] = []"
| "spec_insert_after_first marker ins (c # cs) =
     (if prefix marker (c # cs) then marker @ ins @ drop (length marker) (c # cs)
      else c # spec_insert_after_first marker ins cs)"

section \<open>Example documents\<close>

definition ex_spec :: document where
  "ex_spec = \<lparr>path = ''docs/client_spec.md'', title = ''Client Specification'',
              category = ''spec'', content = ''# Client Specification''\<rparr>"

definition ex_progress :: document where
  "ex_progress = \<lparr>path = ''docs/progress.md'', title = ''Project Progress Log'',
              category = ''progress'', content = ''# Project Progress Log''\<rparr>"

definition ex_phase :: document where
  "ex_phase = \<lparr>path = ''docs/phases/phase2.md'', title = ''Phase 2: Core'',
              category = ''phase'', content = ''# Phase 2: Core''\<rparr>"

definition ex_stage :: document where
  "ex_stage = \<lparr>path = ''docs/stages/stage2_1-auth.md'', title = ''Stage 2.1: Auth'',
              category = ''stage'', content = ''# Stage 2.1: Auth''\<rparr>"

definition ex_report :: document where
  "ex_report = \<lparr>path = ''docs/reports/report2_1-auth.md'',
              title = ''Stage 2.1: Auth - Completion Report'',
              category = ''report'', content = ''# Stage 2.1: Auth - Completion Report''\<rparr>"

text \<open>The text that a sync of this file system writes to the memory file.\<close>

definition memory_of :: "world \<Rightarrow> string" where
  "memory_of w =
     memory_text (create_memory_entries
       (filter (\<lambda>doc. doc \<noteq> None) (map (extract_metadata w) (get_all_docs w))))"

section \<open>Example file systems\<close>

definition ex_cfg :: config where
  "ex_cfg = \<lparr>HOME = ''/home/u'', CWD = ''/work/akro'', PROJECT = ''akro'',
             claude_parent_exists = False\<rparr>"

definition ex_logged :: world where
  "ex_logged = \<lparr>files = [(''docs/progress.md'', ''# Log'')], out = []\<rparr>"

definition ex_unlogged :: world where
  "ex_unlogged = \<lparr>files = [(''docs/client_spec.md'', ''# Client Specification''),
                            (''docs/stages/stage2_1-auth.md'', ''# Stage 2.1: Auth'')], out = []\<rparr>"

definition ex_ext :: externals where
  "ex_ext = \<lparr>str_format = (\<lambda>template phase stage name. Some (template @ name)),
             STAGE_TMPL = ''# STAGE: '',
             setup_framework = (\<lambda>w. (Returned, w)),
             create_report = (\<lambda>phase stage name w. (Returned, w))\<rparr>"

section \<open>Closed forms of the loops\<close>

lemmas ex_defs = ex_spec_def ex_progress_def ex_phase_def ex_stage_def ex_report_def

lemmas eval_defs = is_extracted_def title_of_def heading_at_def category_of_def py_strip_def
  is_space_def newline_def to_upper_def lowers_def uppers_def path_name_def


lemma py_in_sublist: "py_in sub s = sublist sub s"
  by (induction s) (auto simp: sublist_Cons_right)

lemma entity_loop_Some:
  "entity_loop (map Some ds) acc =
     acc @ map (\<lambda>d. Entity (title d) (py_capitalize (category d)) [content d]) ds"
  by (induction ds arbitrary: acc) auto

lemma first_of_category_Some:
  "first_of_category c (map Some ds) = find (\<lambda>d. category d = c) ds"
  by (induction ds) auto

lemma all_of_category_Some:
  "all_of_category c (map Some ds) = filter (\<lambda>d. category d = c) ds"
  by (induction ds) auto

lemma tracks_loop_Some:
  "tracks_loop p (map Some ds) acc =
     acc @ map (\<lambda>d. Relation (title p) (title d) ''tracks'') (filter (\<lambda>d. d \<noteq> p) ds)"
  by (induction ds arbitrary: acc) auto

lemma contains_loop_eq:
  "contains_loop r phases acc = acc @ map (\<lambda>p. Relation (title r) (title p) ''contains'') phases"
  by (induction phases arbitrary: acc) auto

lemma implements_inner_eq:
  "implements_inner s n phases acc =
     acc @ map (\<lambda>p. Relation (title p) (title s) ''implements'')
               (filter (\<lambda>p. sublist (''Phase '' @ n) (title p)) phases)"
  by (induction phases arbitrary: acc) (auto simp: py_in_sublist)

lemma implements_loop_eq:
  "implements_loop stages phases acc = acc @ concat (map (implements_of phases) stages)"
  by (induction stages arbitrary: acc) (auto simp: implements_inner_eq implements_of_def split: option.splits)

lemma completed_inner_eq:
  "completed_inner s reports acc = acc @ completed_of reports s"
  by (induction reports arbitrary: acc) (auto simp: completed_of_def py_in_sublist split: option.splits)

lemma completed_loop_eq:
  "completed_loop stages reports acc = acc @ concat (map (completed_of reports) stages)"
  by (induction stages arbitrary: acc) (auto simp: completed_inner_eq)

lemma create_memory_entries_eq:
  "create_memory_entries (map Some ds) =
     map (\<lambda>d. Entity (title d) (py_capitalize (category d)) [content d]) ds
     @ informs_of ds @ tracks_of ds @ contains_of ds
     @ concat (map (implements_of (filter (\<lambda>d. category d = ''phase'') ds)) (filter (\<lambda>d. category d = ''stage'') ds))
     @ concat (map (completed_of (filter (\<lambda>d. category d = ''report'') ds)) (filter (\<lambda>d. category d = ''stage'') ds))"
  by (simp add: create_memory_entries_def Let_def entity_loop_Some first_of_category_Some
      all_of_category_Some tracks_loop_Some contains_loop_eq implements_loop_eq completed_loop_eq
      informs_of_def tracks_of_def contains_of_def split: option.splits)

lemma filter_rel_entities [simp]:
  "filter (rel_type r) (map (\<lambda>d. Entity (f d) (g d) (h d)) ds) = []"
  by (induction ds) auto

lemma filter_rel_relations [simp]:
  "filter (rel_type r) (map (\<lambda>d. Relation (f d) (g d) r') ds) =
     (if r' = r then map (\<lambda>d. Relation (f d) (g d) r') ds else [])"
  by (induction ds) auto

lemma filter_rel_informs [simp]:
  "filter (rel_type r) (informs_of ds) = (if r = ''informs'' then informs_of ds else [])"
  by (auto simp: informs_of_def split: option.splits)

lemma filter_rel_tracks [simp]:
  "filter (rel_type r) (tracks_of ds) = (if r = ''tracks'' then tracks_of ds else [])"
  by (auto simp: tracks_of_def split: option.splits)

lemma filter_rel_contains [simp]:
  "filter (rel_type r) (contains_of ds) = (if r = ''contains'' then contains_of ds else [])"
  by (auto simp: contains_of_def split: option.splits)

lemma filter_rel_implements_of [simp]:
  "filter (rel_type r) (implements_of phases s) = (if r = ''implements'' then implements_of phases s else [])"
  by (auto simp: implements_of_def split: option.splits)

lemma filter_rel_completed_of [simp]:
  "filter (rel_type r) (completed_of reports s) = (if r = ''completed_by'' then completed_of reports s else [])"
  by (auto simp: completed_of_def split: option.splits)

lemma concat_map_Nil [simp]: "concat (map (\<lambda>x. []) xs) = []"
  by (induction xs) auto

lemma filter_rel_create:
  "filter (rel_type r) (create_memory_entries (map Some ds)) =
     (if r = ''informs'' then informs_of ds else [])
     @ (if r = ''tracks'' then tracks_of ds else [])
     @ (if r = ''contains'' then contains_of ds else [])
     @ (if r = ''implements''
        then concat (map (implements_of (filter (\<lambda>d. category d = ''phase'') ds)) (filter (\<lambda>d. category d = ''stage'') ds))
        else [])
     @ (if r = ''completed_by''
        then concat (map (completed_of (filter (\<lambda>d. category d = ''report'') ds)) (filter (\<lambda>d. category d = ''stage'') ds))
        else [])"
  by (simp add: create_memory_entries_eq filter_concat comp_def)

lemma category_of_cases:
  "category_of p \<in> set [''phase'', ''stage'', ''report'', ''spec'', ''roadmap'', ''progress'', ''document'']"
  by (simp add: category_of_def)

lemma capitalize_category: "py_capitalize (category_of p) = cap_first (category_of p)"
  by (simp add: category_of_def to_lower_def uppers_def lowers_def)

lemma list_all_relation_map [simp]:
  "list_all is_relation (map (\<lambda>d. Relation (f d) (g d) r) ds)"
  by (induction ds) auto

lemma relations_informs [simp]: "list_all is_relation (informs_of ds)"
  by (auto simp: informs_of_def split: option.splits)
lemma relations_tracks [simp]: "list_all is_relation (tracks_of ds)"
  by (auto simp: tracks_of_def split: option.splits)
lemma relations_contains [simp]: "list_all is_relation (contains_of ds)"
  by (auto simp: contains_of_def split: option.splits)
lemma relations_implements [simp]: "list_all is_relation (concat (map (implements_of ps) ss))"
  by (induction ss) (auto simp: implements_of_def split: option.splits)
lemma relations_completed [simp]: "list_all is_relation (concat (map (completed_of rs) ss))"
  by (induction ss) (auto simp: completed_of_def split: option.splits)

lemma filter_neq_absent: "x \<notin> set xs \<Longrightarrow> filter (\<lambda>d. d \<noteq> x) xs = xs"
  by (induction xs) auto

lemma length_filter_neq:
  "x \<in> set xs \<Longrightarrow> distinct xs \<Longrightarrow> length (filter (\<lambda>d. d \<noteq> x) xs) = length xs - 1"
proof (induction xs)
  case Nil
  then show ?case by simp
next
  case (Cons a xs)
  show ?case
  proof (cases "a = x")
    case True
    with Cons.prems show ?thesis by (simp add: filter_neq_absent)
  next
    case False
    with Cons.prems have "x \<in> set xs" and "distinct xs" by auto
    then have "length (filter (\<lambda>d. d \<noteq> x) xs) = length xs - 1" and "0 < length xs"
      using Cons.IH by (auto simp: length_pos_if_in_set)
    with False show ?thesis by simp
  qed
qed

section \<open>The documents of a synchronisation\<close>

text \<open>
  \<open>sync_memory\<close> passes to \<open>create_memory_entries\<close> the documents extracted from the
  paths of \<open>get_all_docs\<close>; when no path occurs twice in the file system, they are
  extracted documents that are pairwise different.
\<close>

lemma extract_metadata_extracted:
  "extract_metadata w p = Some d \<Longrightarrow> is_extracted d \<and> path d = p"
  by (auto simp: extract_metadata_def is_extracted_def split: option.splits)

lemma valid_docs_extracted:
  "\<exists>ds. filter (\<lambda>doc. doc \<noteq> None) (map (extract_metadata w) ps) = map Some ds
        \<and> (\<forall>d\<in>set ds. is_extracted d) \<and> map path ds = filter (exists w) ps"
proof (induction ps)
  case Nil
  show ?case by simp
next
  case (Cons p ps)
  then obtain ds where ds: "filter (\<lambda>doc. doc \<noteq> None) (map (extract_metadata w) ps) = map Some ds"
    "\<forall>d\<in>set ds. is_extracted d" "map path ds = filter (exists w) ps" by blast
  show ?case
  proof (cases "extract_metadata w p")
    case None
    then have "\<not> exists w p"
      by (simp add: extract_metadata_def exists_def read_text_def split: option.splits)
    with None ds show ?thesis by (intro exI [of _ ds]) simp
  next
    case (Some d)
    then have "exists w p"
      by (auto simp: extract_metadata_def exists_def read_text_def split: option.splits)
    with Some ds extract_metadata_extracted [OF Some] show ?thesis
      by (intro exI [of _ "d # ds"]) simp
  qed
qed

lemma glob_md_prefix: "p \<in> set (glob_md w d) \<Longrightarrow> prefix (d @ ''/'') p"
  by (simp add: glob_md_def)

lemma distinct_glob_md: "distinct (map fst (files w)) \<Longrightarrow> distinct (glob_md w d)"
  by (simp add: glob_md_def)

lemma glob_md_disjoint:
  assumes "\<not> prefix (d1 @ ''/'') (d2 @ ''/'')" and "\<not> prefix (d2 @ ''/'') (d1 @ ''/'')"
  shows "set (glob_md w d1) \<inter> set (glob_md w d2) = {}"
proof (rule ccontr)
  assume "set (glob_md w d1) \<inter> set (glob_md w d2) \<noteq> {}"
  then obtain p where "p \<in> set (glob_md w d1)" and "p \<in> set (glob_md w d2)" by blast
  then have "prefix (d1 @ ''/'') p" and "prefix (d2 @ ''/'') p"
    by (auto dest: glob_md_prefix)
  then have "prefix (d1 @ ''/'') (d2 @ ''/'') \<or> prefix (d2 @ ''/'') (d1 @ ''/'')"
    by (rule prefix_same_cases)
  with assms show False by blast
qed

lemma singles_not_globbed:
  assumes "p \<in> set [CLIENT_SPEC, ROADMAP, PROGRESS]" and "d \<in> set [PHASES, STAGES, REPORTS]"
  shows "p \<notin> set (glob_md w d)"
proof
  assume "p \<in> set (glob_md w d)"
  then have "prefix (d @ ''/'') p" by (rule glob_md_prefix)
  with assms show False
    by (auto simp: CLIENT_SPEC_def ROADMAP_def PROGRESS_def PHASES_def STAGES_def REPORTS_def)
qed

lemma distinct_get_all_docs:
  assumes "distinct (map fst (files w))"
  shows "distinct (get_all_docs w)"
proof -
  have s: "distinct (filter (exists w) [CLIENT_SPEC, ROADMAP, PROGRESS])"
    by (rule distinct_filter) (simp add: CLIENT_SPEC_def ROADMAP_def PROGRESS_def)
  have g: "distinct (glob_md w d)" for d
    using assms by (rule distinct_glob_md)
  have d1: "set (glob_md w PHASES) \<inter> set (glob_md w STAGES) = {}"
    by (rule glob_md_disjoint) (simp_all add: PHASES_def STAGES_def)
  have d2: "set (glob_md w PHASES) \<inter> set (glob_md w REPORTS) = {}"
    by (rule glob_md_disjoint) (simp_all add: PHASES_def REPORTS_def)
  have d3: "set (glob_md w STAGES) \<inter> set (glob_md w REPORTS) = {}"
    by (rule glob_md_disjoint) (simp_all add: STAGES_def REPORTS_def)
  have d4: "set (filter (exists w) [CLIENT_SPEC, ROADMAP, PROGRESS]) \<inter> set (glob_md w d) = {}"
    if "d \<in> set [PHASES, STAGES, REPORTS]" for d
  proof (rule ccontr)
    assume "set (filter (exists w) [CLIENT_SPEC, ROADMAP, PROGRESS]) \<inter> set (glob_md w d) \<noteq> {}"
    then obtain p where "p \<in> set (filter (exists w) [CLIENT_SPEC, ROADMAP, PROGRESS])"
      and p: "p \<in> set (glob_md w d)" by blast
    then have "p \<in> set [CLIENT_SPEC, ROADMAP, PROGRESS]"
      using filter_is_subset [of "exists w" "[CLIENT_SPEC, ROADMAP, PROGRESS]"] by blast
    from singles_not_globbed [OF this that] p show False by blast
  qed
  have "distinct (filter (exists w) [CLIENT_SPEC, ROADMAP, PROGRESS]
      @ glob_md w PHASES @ glob_md w STAGES @ glob_md w REPORTS)"
    using s g d1 d2 d3 d4 [of PHASES] d4 [of STAGES] d4 [of REPORTS]
    by (simp only: distinct_append set_append Int_Un_distrib Un_empty list.set insert_iff simp_thms)
  then show ?thesis
    by (simp only: get_all_docs_def list.map concat.simps append_Nil2)
qed

lemma sync_documents_well_formed:
  assumes "distinct (map fst (files w))"
  shows "\<exists>ds. filter (\<lambda>doc. doc \<noteq> None) (map (extract_metadata w) (get_all_docs w)) = map Some ds
        \<and> (\<forall>d\<in>set ds. is_extracted d) \<and> distinct ds"
proof -
  obtain ds where ds: "filter (\<lambda>doc. doc \<noteq> None) (map (extract_metadata w) (get_all_docs w)) = map Some ds"
    "\<forall>d\<in>set ds. is_extracted d" "map path ds = filter (exists w) (get_all_docs w)"
    using valid_docs_extracted [of w "get_all_docs w"] by blast
  have "distinct (map path ds)"
    unfolding ds(3) using distinct_get_all_docs [OF assms] by (rule distinct_filter)
  then have "distinct ds" by (simp add: distinct_map)
  with ds show ?thesis by blast
qed

section \<open>Entities and the order of the output\<close>

text \<open>
  C1. For a list of extracted documents, \<open>create_memory_entries\<close> returns one entity per
  document, in input order, with the document's title as name, its category with the
  first letter in upper case as entity type and its content as the only observation;
  everything after these entities is a relation.
\<close>

theorem entities_precede_relations:
  assumes "\<forall>d\<in>set ds. is_extracted d"
  shows "\<exists>rels. create_memory_entries (map Some ds) =
            map (\<lambda>d. Entity (title d) (cap_first (category d)) [content d]) ds @ rels
          \<and> list_all is_relation rels"
proof -
  have "map (\<lambda>d. Entity (title d) (py_capitalize (category d)) [content d]) ds =
        map (\<lambda>d. Entity (title d) (cap_first (category d)) [content d]) ds"
    using assms by (auto simp: is_extracted_def capitalize_category)
  then show ?thesis
    by (simp add: create_memory_entries_eq)
qed

theorem entities_precede_relations_witness:
  "is_extracted ex_spec \<and> is_extracted ex_progress \<and>
   (\<exists>rels. create_memory_entries [Some ex_spec, Some ex_progress] =
      [Entity ''Client Specification'' ''Spec'' [''# Client Specification''],
       Entity ''Project Progress Log'' ''Progress'' [''# Project Progress Log'']] @ rels
     \<and> list_all is_relation rels)"
  using entities_precede_relations [of "[ex_spec, ex_progress]"]
  by (simp add: ex_defs eval_defs)

section \<open>The rule \<open>tracks\<close>\<close>

text \<open>
  C4. When the documents are pairwise different and \<open>p\<close> is the first one of category
  \<open>progress\<close>, the relations of type \<open>tracks\<close> in the output are, in document order, one
  from \<open>p\<close>'s title to the title of every document other than \<open>p\<close>: \<open>n - 1\<close> relations
  for \<open>n\<close> documents.
\<close>

theorem tracks_rule:
  assumes "find (\<lambda>d. category d = ''progress'') ds = Some p" and "distinct ds"
  shows "filter (rel_type ''tracks'') (create_memory_entries (map Some ds)) =
           map (\<lambda>d. Relation (title p) (title d) ''tracks'') (filter (\<lambda>d. d \<noteq> p) ds)
         \<and> length (filter (rel_type ''tracks'') (create_memory_entries (map Some ds))) = length ds - 1"
proof -
  have eq: "filter (rel_type ''tracks'') (create_memory_entries (map Some ds)) =
           map (\<lambda>d. Relation (title p) (title d) ''tracks'') (filter (\<lambda>d. d \<noteq> p) ds)"
    using assms(1) by (simp add: filter_rel_create tracks_of_def)
  have "p \<in> set ds" using assms(1) by (auto simp: find_Some_iff)
  then have "length (filter (\<lambda>d. d \<noteq> p) ds) = length ds - 1"
    using assms(2) by (rule length_filter_neq)
  with eq show ?thesis by simp
qed

theorem tracks_rule_witness:
  "find (\<lambda>d. category d = ''progress'') [ex_spec, ex_progress, ex_stage] = Some ex_progress \<and>
   distinct [ex_spec, ex_progress, ex_stage] \<and>
   filter (rel_type ''tracks'') (create_memory_entries [Some ex_spec, Some ex_progress, Some ex_stage]) =
     [Relation ''Project Progress Log'' ''Client Specification'' ''tracks'',
      Relation ''Project Progress Log'' ''Stage 2.1: Auth'' ''tracks''] \<and>
   length (filter (rel_type ''tracks'')
     (create_memory_entries [Some ex_spec, Some ex_progress, Some ex_stage])) = 2"
  using tracks_rule [of "[ex_spec, ex_progress, ex_stage]" ex_progress]
  by (simp add: ex_defs)

section \<open>Category of a path\<close>

text \<open>
  C2, amended. The category of a path follows the fixed priority order: \<open>phases\<close> in
  the path string, else \<open>stages\<close>, else \<open>reports\<close>, else the file names
  \<open>client_spec.md\<close>, \<open>project_roadmap.md\<close>, \<open>progress.md\<close>, else \<open>document\<close>. In
  particular a path that contains \<open>stages\<close> and \<open>reports\<close>, and does not contain
  \<open>phases\<close>, is a \<open>stage\<close>.
\<close>

theorem category_priority:
  "category_of p =
     (if sublist ''phases'' p then ''phase''
      else if sublist ''stages'' p then ''stage''
      else if sublist ''reports'' p then ''report''
      else if path_name p = ''client_spec.md'' then ''spec''
      else if path_name p = ''project_roadmap.md'' then ''roadmap''
      else if path_name p = ''progress.md'' then ''progress''
      else ''document'')
   \<and> (sublist ''stages'' p \<and> sublist ''reports'' p \<and> \<not> sublist ''phases'' p
        \<longrightarrow> category_of p = ''stage'')"
  by (simp add: category_of_def py_in_sublist)

theorem category_priority_witness:
  "sublist ''stages'' ''docs/stages/reports-overview.md'' \<and>
   sublist ''reports'' ''docs/stages/reports-overview.md'' \<and>
   \<not> sublist ''phases'' ''docs/stages/reports-overview.md'' \<and>
   category_of ''docs/stages/reports-overview.md'' = ''stage''"
  using category_priority [of "''docs/stages/reports-overview.md''"]
  by (simp flip: py_in_sublist)

text \<open>
  C2 as stated fails where the path also contains \<open>phases\<close>: such a path contains
  \<open>stages\<close> and \<open>reports\<close> and is a \<open>phase\<close>.
\<close>

theorem category_stage_report_counterexample:
  "sublist ''stages'' ''docs/phases/stages/reports.md'' \<and>
   sublist ''reports'' ''docs/phases/stages/reports.md'' \<and>
   category_of ''docs/phases/stages/reports.md'' = ''phase'' \<and>
   category_of ''docs/phases/stages/reports.md'' \<noteq> ''stage''"
  by (simp add: category_of_def flip: py_in_sublist)

section \<open>Title of a document\<close>

lemma heading_at_None: "\<not> prefix ''# '' s \<Longrightarrow> heading_at s = None"
  by (simp add: heading_at_def)

lemma re_search_heading_absent:
  "\<not> sublist ''# '' s \<Longrightarrow> re_search heading_at s = None"
proof (induction s)
  case Nil
  then show ?case by (simp add: heading_at_def)
next
  case (Cons c cs)
  then have "\<not> prefix ''# '' (c # cs)" and "\<not> sublist ''# '' cs"
    by (auto simp: sublist_Cons_right)
  with Cons.IH show ?case by (simp add: heading_at_None)
qed

lemma heading_at_line:
  assumes "line \<noteq> []" and "newline \<notin> set line" and "rest = [] \<or> hd rest = newline"
  shows "heading_at (''# '' @ line @ rest) = Some line"
proof -
  have "\<And>x. x \<in> set line \<Longrightarrow> x \<noteq> newline"
    using assms(2) by auto
  then have "takeWhile (\<lambda>c. c \<noteq> newline) (line @ rest) = line @ takeWhile (\<lambda>c. c \<noteq> newline) rest"
    by (simp add: takeWhile_append2)
  moreover have "takeWhile (\<lambda>c. c \<noteq> newline) rest = []"
    using assms(3) by (cases rest) auto
  ultimately have "takeWhile (\<lambda>c. c \<noteq> newline) (line @ rest) = line"
    by simp
  with assms(1) show ?thesis by (simp add: heading_at_def)
qed

lemma re_search_heading_first:
  assumes "line \<noteq> []" and "newline \<notin> set line" and "rest = [] \<or> hd rest = newline"
    and "\<not> sublist ''# '' (pre @ ''#'')"
  shows "re_search heading_at (pre @ ''# '' @ line @ rest) = Some line"
  using assms(4)
proof (induction pre)
  case Nil
  have "re_search heading_at (''# '' @ line @ rest) = Some line"
    using heading_at_line [OF assms(1,2,3)] by simp
  then show ?case by simp
next
  case (Cons c pre)
  from Cons.prems have np: "\<not> prefix ''# '' (c # pre @ ''#'')" and ns: "\<not> sublist ''# '' (pre @ ''#'')"
    by (auto simp: sublist_Cons_right)
  have "\<not> prefix ''# '' (c # pre @ ''# '' @ line @ rest)"
    using np by (cases pre) auto
  then have "heading_at ((c # pre) @ ''# '' @ line @ rest) = None"
    by (simp add: heading_at_None)
  with Cons.IH [OF ns] show ?case by simp
qed

lemma re_search_None_iff:
  "re_search m s = None \<longleftrightarrow> (\<forall>k\<le>length s. m (drop k s) = None)"
proof (induction s)
  case Nil
  show ?case by simp
next
  case (Cons c cs)
  have "(\<forall>k\<le>Suc (length cs). m (drop k (c # cs)) = None)
      \<longleftrightarrow> m (c # cs) = None \<and> (\<forall>k\<le>length cs. m (drop k cs) = None)"
  proof
    assume h: "\<forall>k\<le>Suc (length cs). m (drop k (c # cs)) = None"
    have "m (drop 0 (c # cs)) = None" using h by blast
    moreover have "m (drop k cs) = None" if "k \<le> length cs" for k
      using h [rule_format, of "Suc k"] that by simp
    ultimately show "m (c # cs) = None \<and> (\<forall>k\<le>length cs. m (drop k cs) = None)" by simp
  next
    assume h: "m (c # cs) = None \<and> (\<forall>k\<le>length cs. m (drop k cs) = None)"
    show "\<forall>k\<le>Suc (length cs). m (drop k (c # cs)) = None"
    proof (intro allI impI)
      fix k assume "k \<le> Suc (length cs)"
      then show "m (drop k (c # cs)) = None" using h by (cases k) auto
    qed
  qed
  with Cons.IH show ?case by (cases "m (c # cs)") auto
qed

lemma re_search_Some_iff:
  "re_search m s = Some g \<longleftrightarrow>
     (\<exists>k\<le>length s. m (drop k s) = Some g \<and> (\<forall>j<k. m (drop j s) = None))"
proof (induction s)
  case Nil
  show ?case by simp
next
  case (Cons c cs)
  show ?case
  proof (cases "m (c # cs)")
    case (Some g')
    have "(\<exists>k\<le>length (c # cs). m (drop k (c # cs)) = Some g \<and> (\<forall>j<k. m (drop j (c # cs)) = None))
        \<longleftrightarrow> g' = g"
    proof
      assume "\<exists>k\<le>length (c # cs). m (drop k (c # cs)) = Some g \<and> (\<forall>j<k. m (drop j (c # cs)) = None)"
      then obtain k where k: "m (drop k (c # cs)) = Some g" "\<forall>j<k. m (drop j (c # cs)) = None"
        by blast
      have "k = 0"
      proof (rule ccontr)
        assume "k \<noteq> 0"
        then have "m (drop 0 (c # cs)) = None" using k(2) by blast
        with Some show False by simp
      qed
      with k(1) Some show "g' = g" by simp
    next
      assume "g' = g"
      with Some have "m (drop 0 (c # cs)) = Some g \<and> (\<forall>j<0. m (drop j (c # cs)) = None)" by simp
      then show "\<exists>k\<le>length (c # cs). m (drop k (c # cs)) = Some g \<and> (\<forall>j<k. m (drop j (c # cs)) = None)"
        by blast
    qed
    with Some show ?thesis by simp
  next
    case None
    have "(\<exists>k\<le>length (c # cs). m (drop k (c # cs)) = Some g \<and> (\<forall>j<k. m (drop j (c # cs)) = None))
        \<longleftrightarrow> (\<exists>k\<le>length cs. m (drop k cs) = Some g \<and> (\<forall>j<k. m (drop j cs) = None))"
    proof
      assume "\<exists>k\<le>length (c # cs). m (drop k (c # cs)) = Some g \<and> (\<forall>j<k. m (drop j (c # cs)) = None)"
      then obtain k where k: "k \<le> length (c # cs)" "m (drop k (c # cs)) = Some g"
        "\<forall>j<k. m (drop j (c # cs)) = None" by blast
      from k(2) None obtain k' where k': "k = Suc k'" by (cases k) auto
      have "m (drop j cs) = None" if "j < k'" for j
        using k(3) [rule_format, of "Suc j"] that k' by simp
      with k k' show "\<exists>k\<le>length cs. m (drop k cs) = Some g \<and> (\<forall>j<k. m (drop j cs) = None)"
        by (intro exI [of _ k']) simp
    next
      assume "\<exists>k\<le>length cs. m (drop k cs) = Some g \<and> (\<forall>j<k. m (drop j cs) = None)"
      then obtain k where k: "k \<le> length cs" "m (drop k cs) = Some g"
        "\<forall>j<k. m (drop j cs) = None" by blast
      have "m (drop j (c # cs)) = None" if "j < Suc k" for j
        using that k(3) None by (cases j) auto
      with k show "\<exists>k\<le>length (c # cs). m (drop k (c # cs)) = Some g \<and> (\<forall>j<k. m (drop j (c # cs)) = None)"
        by (intro exI [of _ "Suc k"]) simp
    qed
    with None Cons.IH show ?thesis by simp
  qed
qed

lemma heading_at_hash_space:
  "heading_at s =
     (if hash_space_text s then Some (takeWhile (\<lambda>c. c \<noteq> newline) (drop 2 s)) else None)"
  by (auto simp: heading_at_def hash_space_text_def Let_def split: list.splits)

text \<open>
  C3, amended. The default title is the title-cased file stem with \<open>-\<close> and \<open>_\<close>
  replaced by spaces. The title is decided by the first position of the content at
  which a hash, a space and a character other than a newline stand, wherever in a line
  that is: when there is no such position the default title stays, and otherwise the
  title is the trimmed rest of the line after that hash and space, also when a hash
  and space with nothing after it on its line comes earlier. Every content is in one of
  the two cases. In particular the default stays when the content has no hash followed
  by a space, and with \<open>pre\<close> holding no earlier hash-and-space, \<open>line\<close> not empty and
  running to the end of its line, the title of \<open>pre @ "# " @ line @ rest\<close> is \<open>line\<close>
  trimmed.
\<close>

theorem title_first_hash_space:
  "default_title p = py_title (py_replace ''_'' '' '' (py_replace ''-'' '' '' (path_stem p)))
   \<and> ((\<forall>k\<le>length body. \<not> hash_space_text (drop k body)) \<longrightarrow> title_of p body = default_title p)
   \<and> (hash_space_text (drop k body) \<and> (\<forall>j<k. \<not> hash_space_text (drop j body))
      \<longrightarrow> title_of p body = py_strip (takeWhile (\<lambda>c. c \<noteq> newline) (drop (k + 2) body)))
   \<and> ((\<forall>k\<le>length body. \<not> hash_space_text (drop k body))
        \<or> (\<exists>k. hash_space_text (drop k body) \<and> (\<forall>j<k. \<not> hash_space_text (drop j body))))
   \<and> (\<not> sublist ''# '' body \<longrightarrow> title_of p body = default_title p)
   \<and> (line \<noteq> [] \<and> newline \<notin> set line \<and> (rest = [] \<or> hd rest = newline)
        \<and> \<not> sublist ''# '' (pre @ ''#'')
      \<longrightarrow> title_of p (pre @ ''# '' @ line @ rest) = py_strip line)"
proof (intro conjI impI)
  show "default_title p = py_title (py_replace ''_'' '' '' (py_replace ''-'' '' '' (path_stem p)))"
    by (simp add: default_title_def)
next
  assume "\<forall>k\<le>length body. \<not> hash_space_text (drop k body)"
  then have "\<forall>k\<le>length body. heading_at (drop k body) = None"
    by (simp add: heading_at_hash_space)
  then have "re_search heading_at body = None"
    by (simp add: re_search_None_iff)
  then show "title_of p body = default_title p"
    by (simp add: title_of_def)
next
  assume h: "hash_space_text (drop k body) \<and> (\<forall>j<k. \<not> hash_space_text (drop j body))"
  then have "drop k body \<noteq> []"
    by (auto simp: hash_space_text_def)
  then have k: "k \<le> length body" by simp
  have "heading_at (drop k body) = Some (takeWhile (\<lambda>c. c \<noteq> newline) (drop (k + 2) body))"
    using h by (simp add: heading_at_hash_space add.commute)
  moreover have "\<forall>j<k. heading_at (drop j body) = None"
    using h by (simp add: heading_at_hash_space)
  ultimately have "re_search heading_at body
      = Some (takeWhile (\<lambda>c. c \<noteq> newline) (drop (k + 2) body))"
    using k re_search_Some_iff [of heading_at body] by blast
  then show "title_of p body = py_strip (takeWhile (\<lambda>c. c \<noteq> newline) (drop (k + 2) body))"
    by (simp add: title_of_def)
next
  show "(\<forall>k\<le>length body. \<not> hash_space_text (drop k body))
        \<or> (\<exists>k. hash_space_text (drop k body) \<and> (\<forall>j<k. \<not> hash_space_text (drop j body)))"
  proof (cases "\<exists>k. hash_space_text (drop k body)")
    case True
    then obtain k where "hash_space_text (drop k body)"
      and "\<forall>j<k. \<not> hash_space_text (drop j body)"
      using exists_least_iff [of "\<lambda>k. hash_space_text (drop k body)"] by auto
    then show ?thesis by blast
  next
    case False
    then show ?thesis by blast
  qed
next
  assume "\<not> sublist ''# '' body"
  then show "title_of p body = default_title p"
    by (simp add: title_of_def re_search_heading_absent)
next
  assume "line \<noteq> [] \<and> newline \<notin> set line \<and> (rest = [] \<or> hd rest = newline)
        \<and> \<not> sublist ''# '' (pre @ ''#'')"
  then have "re_search heading_at (pre @ ''# '' @ line @ rest) = Some line"
    by (intro re_search_heading_first) auto
  then show "title_of p (pre @ ''# '' @ line @ rest) = py_strip line"
    by (simp add: title_of_def)
qed

theorem title_first_hash_space_witness:
  "\<not> sublist ''# '' ''no heading here'' \<and>
   title_of ''docs/phases/phase1_core-x.md'' ''no heading here'' = ''Phase1 Core X'' \<and>
   \<not> hash_space_text (drop 0 (''# '' @ [newline] @ ''# Real'')) \<and>
   \<not> hash_space_text (drop 1 (''# '' @ [newline] @ ''# Real'')) \<and>
   \<not> hash_space_text (drop 2 (''# '' @ [newline] @ ''# Real'')) \<and>
   hash_space_text (drop 3 (''# '' @ [newline] @ ''# Real'')) \<and>
   title_of ''docs/phases/phase1_core-x.md'' (''# '' @ [newline] @ ''# Real'') = ''Real'' \<and>
   title_of ''docs/phases/phase1_core-x.md'' (''# '' @ [newline] @ ''#'') = ''Phase1 Core X'' \<and>
   ''Phase 1: Core '' \<noteq> [] \<and> newline \<notin> set ''Phase 1: Core '' \<and> hd (newline # ''text'') = newline \<and>
   \<not> sublist ''# '' ((''intro'' @ [newline]) @ ''#'') \<and>
   title_of ''docs/phases/phase1_core-x.md''
     ((''intro'' @ [newline]) @ ''# '' @ ''Phase 1: Core '' @ (newline # ''text'')) = ''Phase 1: Core''"
proof -
  have d: "default_title ''docs/phases/phase1_core-x.md'' = ''Phase1 Core X''"
    by (simp add: default_title_def py_title_def path_stem_def path_name_def py_replace.simps
      to_upper_def to_lower_def lowers_def uppers_def is_cased_def)
  have a: "\<forall>k\<le>length (''# '' @ [newline] @ ''#''). \<not> hash_space_text (drop k (''# '' @ [newline] @ ''#''))"
  proof (intro allI impI)
    fix k :: nat assume "k \<le> length (''# '' @ [newline] @ ''#'')"
    then have "k = 0 \<or> k = 1 \<or> k = 2 \<or> k = 3 \<or> k = 4" by auto
    then show "\<not> hash_space_text (drop k (''# '' @ [newline] @ ''#''))"
      by (elim disjE) (simp_all add: hash_space_text_def newline_def)
  qed
  have b: "\<forall>j<3. \<not> hash_space_text (drop j (''# '' @ [newline] @ ''# Real''))"
  proof (intro allI impI)
    fix j :: nat assume "j < 3"
    then have "j = 0 \<or> j = 1 \<or> j = 2" by auto
    then show "\<not> hash_space_text (drop j (''# '' @ [newline] @ ''# Real''))"
      by (elim disjE) (simp_all add: hash_space_text_def newline_def)
  qed
  have c: "hash_space_text (drop 3 (''# '' @ [newline] @ ''# Real''))"
    by (simp add: hash_space_text_def newline_def)
  from title_first_hash_space [of "''docs/phases/phase1_core-x.md''" "''# '' @ [newline] @ ''#''"
      0 "''x''" "[]" "[]"] a d
  have t1: "title_of ''docs/phases/phase1_core-x.md'' (''# '' @ [newline] @ ''#'') = ''Phase1 Core X''"
    by simp
  from title_first_hash_space [of "''docs/phases/phase1_core-x.md''" "''# '' @ [newline] @ ''# Real''"
      3 "''x''" "[]" "[]"] b c
  have t2: "title_of ''docs/phases/phase1_core-x.md'' (''# '' @ [newline] @ ''# Real'') = ''Real''"
    by (simp add: py_strip_def is_space_def newline_def)
  from title_first_hash_space [of "''docs/phases/phase1_core-x.md''" "''no heading here''" 0
      "''Phase 1: Core ''" "newline # ''text''" "''intro'' @ [newline]"] d
  have t3: "\<not> sublist ''# '' ''no heading here'' \<and>
     title_of ''docs/phases/phase1_core-x.md'' ''no heading here'' = ''Phase1 Core X'' \<and>
     ''Phase 1: Core '' \<noteq> [] \<and> newline \<notin> set ''Phase 1: Core '' \<and> hd (newline # ''text'') = newline \<and>
     \<not> sublist ''# '' ((''intro'' @ [newline]) @ ''#'') \<and>
     title_of ''docs/phases/phase1_core-x.md''
       ((''intro'' @ [newline]) @ ''# '' @ ''Phase 1: Core '' @ (newline # ''text'')) = ''Phase 1: Core''"
    by (simp add: newline_def py_strip_def is_space_def flip: py_in_sublist)
  from t1 t2 t3 b c show ?thesis
    by (simp add: hash_space_text_def newline_def)
qed

text \<open>
  C3 as stated fails on a level-2 heading: the second hash of \<open>## Goals\<close> is followed
  by a space, so the heading overrides the default title, and it wins over a level-1
  heading that comes later.
\<close>

theorem title_level2_counterexample:
  "title_of ''docs/phases/phase1.md'' ''## Goals'' = ''Goals'' \<and>
   title_of ''docs/phases/phase1.md'' ''## Goals'' \<noteq> default_title ''docs/phases/phase1.md'' \<and>
   title_of ''docs/phases/phase1.md'' (''## Goals'' @ [newline] @ ''# Phase 1: Core'') = ''Goals'' \<and>
   title_of ''docs/phases/phase1.md'' (''## Goals'' @ [newline] @ ''# Phase 1: Core'') \<noteq> ''Phase 1: Core''"
  by (simp add: title_of_def heading_at_def default_title_def py_title_def path_stem_def path_name_def py_replace.simps
      to_upper_def to_lower_def lowers_def uppers_def is_cased_def newline_def py_strip_def is_space_def)

section \<open>What the search patterns match\<close>

text \<open>
  The three patterns match exactly the strings of the shape that the regular
  expressions describe.
\<close>

lemma digit_run_split:
  assumes "\<forall>c\<in>set n. is_digit c" and "\<not> is_digit sep"
  shows "takeWhile is_digit (n @ sep # rest) = n" and "dropWhile is_digit (n @ sep # rest) = sep # rest"
  using assms by (induction n) auto

lemma not_digit_sep: "c = CHR ''.'' \<or> c = CHR ''_'' \<Longrightarrow> \<not> is_digit c"
  by (auto simp: is_digit_def)

lemma stage_num_at_Some_iff:
  "stage_num_at s = Some n \<longleftrightarrow>
     (\<exists>sep rest. s = ''Stage '' @ n @ sep # rest \<and> n \<noteq> [] \<and> (\<forall>c\<in>set n. is_digit c)
        \<and> (sep = CHR ''.'' \<or> sep = CHR ''_''))"
proof
  assume h: "stage_num_at s = Some n"
  then have p: "prefix ''Stage '' s"
    by (simp add: stage_num_at_def split: if_splits)
  then obtain r where s: "s = ''Stage '' @ r" by (auto simp: prefix_def)
  from h s have n: "n = takeWhile is_digit r" and ne: "n \<noteq> []"
    and a: "dropWhile is_digit r \<noteq> []"
    and sep: "hd (dropWhile is_digit r) = CHR ''.'' \<or> hd (dropWhile is_digit r) = CHR ''_''"
    by (auto simp: stage_num_at_def Let_def split: if_splits)
  from a obtain sp rest where d: "dropWhile is_digit r = sp # rest"
    by (cases "dropWhile is_digit r") auto
  have "r = takeWhile is_digit r @ dropWhile is_digit r" by simp
  with n d have "r = n @ sp # rest" by simp
  moreover have "\<forall>c\<in>set n. is_digit c" using n by (auto dest: set_takeWhileD)
  ultimately show "\<exists>sep rest. s = ''Stage '' @ n @ sep # rest \<and> n \<noteq> [] \<and> (\<forall>c\<in>set n. is_digit c)
        \<and> (sep = CHR ''.'' \<or> sep = CHR ''_'')"
    using s ne sep d by auto
next
  assume "\<exists>sep rest. s = ''Stage '' @ n @ sep # rest \<and> n \<noteq> [] \<and> (\<forall>c\<in>set n. is_digit c)
        \<and> (sep = CHR ''.'' \<or> sep = CHR ''_'')"
  then obtain sep rest where s: "s = ''Stage '' @ n @ sep # rest" and ne: "n \<noteq> []"
    and dg: "\<forall>c\<in>set n. is_digit c" and sp: "sep = CHR ''.'' \<or> sep = CHR ''_''" by blast
  from digit_run_split [OF dg not_digit_sep [OF sp]]
  show "stage_num_at s = Some n"
    using s ne sp by (simp add: stage_num_at_def)
qed

lemma stage_id_at_Some_iff:
  "stage_id_at s = Some i \<longleftrightarrow>
     (\<exists>n1 sep n2 rest. s = ''Stage '' @ i @ rest \<and> i = n1 @ sep # n2
        \<and> n1 \<noteq> [] \<and> (\<forall>c\<in>set n1. is_digit c) \<and> (sep = CHR ''.'' \<or> sep = CHR ''_'')
        \<and> n2 \<noteq> [] \<and> (\<forall>c\<in>set n2. is_digit c) \<and> (rest = [] \<or> \<not> is_digit (hd rest)))"
proof
  assume h: "stage_id_at s = Some i"
  then have p: "prefix ''Stage '' s"
    by (simp add: stage_id_at_def split: if_splits)
  then obtain r where s: "s = ''Stage '' @ r" by (auto simp: prefix_def)
  from h s obtain sep r2 where d: "dropWhile is_digit r = sep # r2"
    by (cases "dropWhile is_digit r") (auto simp: stage_id_at_def Let_def)
  from h s d have i: "i = takeWhile is_digit r @ sep # takeWhile is_digit r2"
    and ne1: "takeWhile is_digit r \<noteq> []" and sp: "sep = CHR ''.'' \<or> sep = CHR ''_''"
    and ne2: "takeWhile is_digit r2 \<noteq> []"
    by (auto simp: stage_id_at_def Let_def split: if_splits)
  have "r = takeWhile is_digit r @ dropWhile is_digit r" by simp
  also have "\<dots> = takeWhile is_digit r @ sep # (takeWhile is_digit r2 @ dropWhile is_digit r2)"
    using d by simp
  finally have r: "r = i @ dropWhile is_digit r2" using i by simp
  have t: "dropWhile is_digit r2 = [] \<or> \<not> is_digit (hd (dropWhile is_digit r2))"
    using hd_dropWhile [of is_digit r2] by blast
  have s': "s = ''Stage '' @ i @ dropWhile is_digit r2"
    unfolding s using r by simp
  have d1: "\<forall>c\<in>set (takeWhile is_digit r). is_digit c"
    and d2: "\<forall>c\<in>set (takeWhile is_digit r2). is_digit c"
    by (auto dest: set_takeWhileD)
  from s' i ne1 d1 sp ne2 d2 t
  show "\<exists>n1 sep n2 rest. s = ''Stage '' @ i @ rest \<and> i = n1 @ sep # n2
        \<and> n1 \<noteq> [] \<and> (\<forall>c\<in>set n1. is_digit c) \<and> (sep = CHR ''.'' \<or> sep = CHR ''_'')
        \<and> n2 \<noteq> [] \<and> (\<forall>c\<in>set n2. is_digit c) \<and> (rest = [] \<or> \<not> is_digit (hd rest))"
    by blast
next
  assume "\<exists>n1 sep n2 rest. s = ''Stage '' @ i @ rest \<and> i = n1 @ sep # n2
        \<and> n1 \<noteq> [] \<and> (\<forall>c\<in>set n1. is_digit c) \<and> (sep = CHR ''.'' \<or> sep = CHR ''_'')
        \<and> n2 \<noteq> [] \<and> (\<forall>c\<in>set n2. is_digit c) \<and> (rest = [] \<or> \<not> is_digit (hd rest))"
  then obtain n1 sep n2 rest where s: "s = ''Stage '' @ i @ rest" and i: "i = n1 @ sep # n2"
    and ne1: "n1 \<noteq> []" and d1: "\<forall>c\<in>set n1. is_digit c" and sp: "sep = CHR ''.'' \<or> sep = CHR ''_''"
    and ne2: "n2 \<noteq> []" and d2: "\<forall>c\<in>set n2. is_digit c" and t: "rest = [] \<or> \<not> is_digit (hd rest)"
    by blast
  have a: "takeWhile is_digit (n1 @ sep # n2 @ rest) = n1"
    "dropWhile is_digit (n1 @ sep # n2 @ rest) = sep # n2 @ rest"
    using digit_run_split [OF d1 not_digit_sep [OF sp]] by auto
  have b: "takeWhile is_digit (n2 @ rest) = n2"
  proof (cases rest)
    case Nil
    with d2 show ?thesis by (simp add: takeWhile_eq_all_conv)
  next
    case (Cons x xs)
    with t d2 show ?thesis using digit_run_split(1) [of n2 x xs] by simp
  qed
  show "stage_id_at s = Some i"
    using s i a b ne1 ne2 sp by (simp add: stage_id_at_def)
qed

lemma heading_at_Some_iff:
  "heading_at s = Some l \<longleftrightarrow>
     (\<exists>rest. s = ''# '' @ l @ rest \<and> l \<noteq> [] \<and> newline \<notin> set l
        \<and> (rest = [] \<or> hd rest = newline))"
proof
  assume h: "heading_at s = Some l"
  then have "prefix ''# '' s" by (simp add: heading_at_def split: if_splits)
  then obtain r where s: "s = ''# '' @ r" by (auto simp: prefix_def)
  from h s have l: "l = takeWhile (\<lambda>c. c \<noteq> newline) r" and ne: "l \<noteq> []"
    by (auto simp: heading_at_def Let_def split: if_splits)
  have "r = l @ dropWhile (\<lambda>c. c \<noteq> newline) r" using l by simp
  moreover have "dropWhile (\<lambda>c. c \<noteq> newline) r = [] \<or> hd (dropWhile (\<lambda>c. c \<noteq> newline) r) = newline"
    using hd_dropWhile [of "\<lambda>c. c \<noteq> newline" r] by blast
  moreover have "newline \<notin> set l" using l by (auto dest: set_takeWhileD)
  ultimately show "\<exists>rest. s = ''# '' @ l @ rest \<and> l \<noteq> [] \<and> newline \<notin> set l
        \<and> (rest = [] \<or> hd rest = newline)"
    using s ne by (intro exI [of _ "dropWhile (\<lambda>c. c \<noteq> newline) r"]) auto
next
  assume "\<exists>rest. s = ''# '' @ l @ rest \<and> l \<noteq> [] \<and> newline \<notin> set l
        \<and> (rest = [] \<or> hd rest = newline)"
  then show "heading_at s = Some l"
    using heading_at_line by auto
qed

section \<open>The rules \<open>implements\<close> and \<open>completed_by\<close>\<close>

lemma implements_of_member:
  "Relation f t r \<in> set (implements_of phases s) \<Longrightarrow>
     t = title s \<and> (\<exists>n p. re_search stage_num_at (title s) = Some n \<and> p \<in> set phases
        \<and> sublist (''Phase '' @ n) (title p))"
  by (cases "re_search stage_num_at (title s)") (auto simp: implements_of_def)

lemma completed_of_member:
  "Relation f t r \<in> set (completed_of reports s) \<Longrightarrow>
     f = title s \<and> (\<exists>i rp. re_search stage_id_at (title s) = Some i \<and> rp \<in> set reports
        \<and> t = title rp \<and> sublist i (title rp))"
  by (cases "re_search stage_id_at (title s)") (auto simp: completed_of_def)

lemmas regex_defs = stage_num_at_def stage_id_at_def is_digit_def

text \<open>
  C5. The relations of type \<open>implements\<close> are, for every stage document in order whose
  title matches \<open>Stage <digits>\<close> followed by a dot or underscore, one relation from
  each phase document whose title contains \<open>Phase <those digits>\<close> to the stage; a
  title without such a match, or whose number occurs in no phase title, is the target
  of no such relation. Stage \<open>Stage 2.1: Auth\<close> with phase \<open>Phase 2: Core\<close> gives
  exactly one relation, and \<open>Stage 9.1: X\<close> without a phase \<open>Phase 9\<close> gives none.
\<close>

theorem implements_rule:
  "filter (rel_type ''implements'') (create_memory_entries (map Some ds)) =
     concat (map (\<lambda>s. case re_search stage_num_at (title s) of
                         None \<Rightarrow> []
                       | Some n \<Rightarrow>
                           map (\<lambda>p. Relation (title p) (title s) ''implements'')
                             (filter (\<lambda>p. sublist (''Phase '' @ n) (title p))
                                (filter (\<lambda>d. category d = ''phase'') ds)))
               (filter (\<lambda>d. category d = ''stage'') ds))
   \<and> ((\<forall>n. re_search stage_num_at t = Some n \<longrightarrow>
           (\<forall>p\<in>set ds. category p = ''phase'' \<longrightarrow> \<not> sublist (''Phase '' @ n) (title p)))
        \<longrightarrow> Relation f t ''implements'' \<notin> set (create_memory_entries (map Some ds)))
   \<and> re_search stage_num_at ''Stage 2.1: Auth'' = Some ''2''
   \<and> re_search stage_num_at ''Stage 9.1: X'' = Some ''9''
   \<and> (title s = ''Stage 2.1: Auth'' \<and> category s = ''stage''
        \<and> title p = ''Phase 2: Core'' \<and> category p = ''phase''
      \<longrightarrow> filter (rel_type ''implements'') (create_memory_entries [Some p, Some s]) =
            [Relation ''Phase 2: Core'' ''Stage 2.1: Auth'' ''implements''])"
proof (intro conjI impI)
  show "filter (rel_type ''implements'') (create_memory_entries (map Some ds)) =
     concat (map (\<lambda>s. case re_search stage_num_at (title s) of
                         None \<Rightarrow> []
                       | Some n \<Rightarrow>
                           map (\<lambda>p. Relation (title p) (title s) ''implements'')
                             (filter (\<lambda>p. sublist (''Phase '' @ n) (title p))
                                (filter (\<lambda>d. category d = ''phase'') ds)))
               (filter (\<lambda>d. category d = ''stage'') ds))"
    by (simp add: filter_rel_create implements_of_def [abs_def])
next
  assume h: "\<forall>n. re_search stage_num_at t = Some n \<longrightarrow>
           (\<forall>p\<in>set ds. category p = ''phase'' \<longrightarrow> \<not> sublist (''Phase '' @ n) (title p))"
  show "Relation f t ''implements'' \<notin> set (create_memory_entries (map Some ds))"
  proof
    assume "Relation f t ''implements'' \<in> set (create_memory_entries (map Some ds))"
    then have "Relation f t ''implements'' \<in>
        set (filter (rel_type ''implements'') (create_memory_entries (map Some ds)))"
      by simp
    then obtain s where "Relation f t ''implements'' \<in>
        set (implements_of (filter (\<lambda>d. category d = ''phase'') ds) s)"
      by (auto simp: filter_rel_create)
    from implements_of_member [OF this] h show False by auto
  qed
next
  show "re_search stage_num_at ''Stage 2.1: Auth'' = Some ''2''"
    by (simp add: regex_defs)
next
  show "re_search stage_num_at ''Stage 9.1: X'' = Some ''9''"
    by (simp add: regex_defs)
next
  assume "title s = ''Stage 2.1: Auth'' \<and> category s = ''stage''
        \<and> title p = ''Phase 2: Core'' \<and> category p = ''phase''"
  then show "filter (rel_type ''implements'') (create_memory_entries [Some p, Some s]) =
            [Relation ''Phase 2: Core'' ''Stage 2.1: Auth'' ''implements'']"
    using filter_rel_create [of "''implements''" "[p, s]"]
    by (simp add: implements_of_def regex_defs flip: py_in_sublist)
qed

theorem implements_rule_witness:
  "re_search stage_num_at ''Stage 9.1: X'' = Some ''9'' \<and>
   \<not> sublist ''Phase 9'' (title ex_phase) \<and>
   Relation ''Phase 2: Core'' ''Stage 9.1: X'' ''implements'' \<notin>
     set (create_memory_entries [Some ex_phase, Some ex_stage,
            Some \<lparr>path = ''docs/stages/stage9_1-x.md'', title = ''Stage 9.1: X'',
                  category = ''stage'', content = ''# Stage 9.1: X''\<rparr>]) \<and>
   filter (rel_type ''implements'')
     (create_memory_entries [Some ex_phase, Some ex_stage,
            Some \<lparr>path = ''docs/stages/stage9_1-x.md'', title = ''Stage 9.1: X'',
                  category = ''stage'', content = ''# Stage 9.1: X''\<rparr>]) =
     [Relation ''Phase 2: Core'' ''Stage 2.1: Auth'' ''implements''] \<and>
   title ex_stage = ''Stage 2.1: Auth'' \<and> category ex_stage = ''stage'' \<and>
   title ex_phase = ''Phase 2: Core'' \<and> category ex_phase = ''phase'' \<and>
   filter (rel_type ''implements'') (create_memory_entries [Some ex_phase, Some ex_stage]) =
     [Relation ''Phase 2: Core'' ''Stage 2.1: Auth'' ''implements'']"
  using implements_rule [of "[ex_phase, ex_stage,
            \<lparr>path = ''docs/stages/stage9_1-x.md'', title = ''Stage 9.1: X'',
                  category = ''stage'', content = ''# Stage 9.1: X''\<rparr>]"
          "''Stage 9.1: X''" "''Phase 2: Core''" ex_stage ex_phase]
  by (simp add: ex_defs regex_defs flip: py_in_sublist)

text \<open>
  C6. The relations of type \<open>completed_by\<close> are, for every stage document in order whose
  title matches \<open>Stage <digits>[._]<digits>\<close>, one relation from the stage to each
  report document whose title contains the matched \<open><digits>[._]<digits>\<close>; a pair of
  titles that fails the match is joined by no such relation. Stage
  \<open>Stage 3.2: Setup\<close> with report \<open>Stage 3.2: Setup - Completion Report\<close> gives one
  relation, with report \<open>Stage 3.1: Setup - Completion Report\<close> none.
\<close>

theorem completed_by_rule:
  "filter (rel_type ''completed_by'') (create_memory_entries (map Some ds)) =
     concat (map (\<lambda>s. case re_search stage_id_at (title s) of
                         None \<Rightarrow> []
                       | Some i \<Rightarrow>
                           map (\<lambda>r. Relation (title s) (title r) ''completed_by'')
                             (filter (\<lambda>r. sublist i (title r))
                                (filter (\<lambda>d. category d = ''report'') ds)))
               (filter (\<lambda>d. category d = ''stage'') ds))
   \<and> ((\<forall>i. re_search stage_id_at ts = Some i \<longrightarrow> \<not> sublist i tr)
        \<longrightarrow> Relation ts tr ''completed_by'' \<notin> set (create_memory_entries (map Some ds)))
   \<and> re_search stage_id_at ''Stage 3.2: Setup'' = Some ''3.2''
   \<and> (title s = ''Stage 3.2: Setup'' \<and> category s = ''stage''
        \<and> title r = ''Stage 3.2: Setup - Completion Report'' \<and> category r = ''report''
      \<longrightarrow> filter (rel_type ''completed_by'') (create_memory_entries [Some s, Some r]) =
            [Relation ''Stage 3.2: Setup'' ''Stage 3.2: Setup - Completion Report'' ''completed_by''])
   \<and> (title s = ''Stage 3.2: Setup'' \<and> category s = ''stage''
        \<and> title r = ''Stage 3.1: Setup - Completion Report'' \<and> category r = ''report''
      \<longrightarrow> filter (rel_type ''completed_by'') (create_memory_entries [Some s, Some r]) = [])"
proof (intro conjI impI)
  show "filter (rel_type ''completed_by'') (create_memory_entries (map Some ds)) =
     concat (map (\<lambda>s. case re_search stage_id_at (title s) of
                         None \<Rightarrow> []
                       | Some i \<Rightarrow>
                           map (\<lambda>r. Relation (title s) (title r) ''completed_by'')
                             (filter (\<lambda>r. sublist i (title r))
                                (filter (\<lambda>d. category d = ''report'') ds)))
               (filter (\<lambda>d. category d = ''stage'') ds))"
    by (simp add: filter_rel_create completed_of_def [abs_def])
next
  assume h: "\<forall>i. re_search stage_id_at ts = Some i \<longrightarrow> \<not> sublist i tr"
  show "Relation ts tr ''completed_by'' \<notin> set (create_memory_entries (map Some ds))"
  proof
    assume "Relation ts tr ''completed_by'' \<in> set (create_memory_entries (map Some ds))"
    then have "Relation ts tr ''completed_by'' \<in>
        set (filter (rel_type ''completed_by'') (create_memory_entries (map Some ds)))"
      by simp
    then obtain s where "Relation ts tr ''completed_by'' \<in>
        set (completed_of (filter (\<lambda>d. category d = ''report'') ds) s)"
      by (auto simp: filter_rel_create)
    from completed_of_member [OF this] h show False by auto
  qed
next
  show "re_search stage_id_at ''Stage 3.2: Setup'' = Some ''3.2''"
    by (simp add: regex_defs)
next
  assume "title s = ''Stage 3.2: Setup'' \<and> category s = ''stage''
        \<and> title r = ''Stage 3.2: Setup - Completion Report'' \<and> category r = ''report''"
  then show "filter (rel_type ''completed_by'') (create_memory_entries [Some s, Some r]) =
            [Relation ''Stage 3.2: Setup'' ''Stage 3.2: Setup - Completion Report'' ''completed_by'']"
    using filter_rel_create [of "''completed_by''" "[s, r]"]
    by (simp add: completed_of_def regex_defs flip: py_in_sublist)
next
  assume "title s = ''Stage 3.2: Setup'' \<and> category s = ''stage''
        \<and> title r = ''Stage 3.1: Setup - Completion Report'' \<and> category r = ''report''"
  then show "filter (rel_type ''completed_by'') (create_memory_entries [Some s, Some r]) = []"
    using filter_rel_create [of "''completed_by''" "[s, r]"]
    by (simp add: completed_of_def regex_defs flip: py_in_sublist)
qed

theorem completed_by_rule_witness:
  "re_search stage_id_at ''Stage 2.1: Auth'' = Some ''2.1'' \<and>
   \<not> sublist ''2.1'' ''Phase 2: Core'' \<and>
   Relation ''Stage 2.1: Auth'' ''Phase 2: Core'' ''completed_by'' \<notin>
     set (create_memory_entries [Some ex_phase, Some ex_stage, Some ex_report]) \<and>
   filter (rel_type ''completed_by'') (create_memory_entries [Some ex_phase, Some ex_stage, Some ex_report]) =
     [Relation ''Stage 2.1: Auth'' ''Stage 2.1: Auth - Completion Report'' ''completed_by''] \<and>
   filter (rel_type ''completed_by'')
     (create_memory_entries
        [Some \<lparr>path = ''docs/stages/stage3_2-setup.md'', title = ''Stage 3.2: Setup'',
               category = ''stage'', content = ''# Stage 3.2: Setup''\<rparr>,
         Some \<lparr>path = ''docs/reports/report3_2-setup.md'',
               title = ''Stage 3.2: Setup - Completion Report'',
               category = ''report'', content = ''# Stage 3.2: Setup - Completion Report''\<rparr>]) =
     [Relation ''Stage 3.2: Setup'' ''Stage 3.2: Setup - Completion Report'' ''completed_by''] \<and>
   filter (rel_type ''completed_by'')
     (create_memory_entries
        [Some \<lparr>path = ''docs/stages/stage3_2-setup.md'', title = ''Stage 3.2: Setup'',
               category = ''stage'', content = ''# Stage 3.2: Setup''\<rparr>,
         Some \<lparr>path = ''docs/reports/report3_1-setup.md'',
               title = ''Stage 3.1: Setup - Completion Report'',
               category = ''report'', content = ''# Stage 3.1: Setup - Completion Report''\<rparr>]) = []"
  using completed_by_rule [of "[ex_phase, ex_stage, ex_report]" "''Stage 2.1: Auth''" "''Phase 2: Core''"
          "\<lparr>path = ''docs/stages/stage3_2-setup.md'', title = ''Stage 3.2: Setup'',
               category = ''stage'', content = ''# Stage 3.2: Setup''\<rparr>"
          "\<lparr>path = ''docs/reports/report3_2-setup.md'',
               title = ''Stage 3.2: Setup - Completion Report'',
               category = ''report'', content = ''# Stage 3.2: Setup - Completion Report''\<rparr>"]
    completed_by_rule [of "[]" "[]" "[]"
          "\<lparr>path = ''docs/stages/stage3_2-setup.md'', title = ''Stage 3.2: Setup'',
               category = ''stage'', content = ''# Stage 3.2: Setup''\<rparr>"
          "\<lparr>path = ''docs/reports/report3_1-setup.md'',
               title = ''Stage 3.1: Setup - Completion Report'',
               category = ''report'', content = ''# Stage 3.1: Setup - Completion Report''\<rparr>"]
  by (simp add: ex_defs regex_defs flip: py_in_sublist)

section \<open>Progress log update\<close>

lemma py_replace_absent:
  "old \<noteq> [] \<Longrightarrow> \<not> sublist old s \<Longrightarrow> py_replace old new s = s"
proof (induction s)
  case Nil
  then show ?case by (simp add: py_replace.simps)
next
  case (Cons c cs)
  then have "\<not> prefix old (c # cs)" and "\<not> sublist old cs"
    by (auto simp: sublist_Cons_right)
  with Cons show ?case by (simp add: py_replace.simps [of old new "c # cs"])
qed

lemma py_replace_here:
  "old \<noteq> [] \<Longrightarrow> py_replace old new (old @ b) = new @ py_replace old new b"
proof -
  assume ne: "old \<noteq> []"
  have "py_replace old new (old @ b) = new @ py_replace old new (drop (length old) (old @ b))"
    using ne by (subst py_replace.simps) simp
  then show ?thesis by simp
qed

lemma py_replace_first:
  assumes "old \<noteq> []" and "\<not> sublist old (a @ butlast old)"
  shows "py_replace old new (a @ old @ b) = a @ new @ py_replace old new b"
  using assms(2)
proof (induction a)
  case Nil
  show ?case using py_replace_here [OF assms(1)] by simp
next
  case (Cons c a)
  from Cons.prems have ns: "\<not> sublist old (a @ butlast old)"
    and np: "\<not> prefix old (c # a @ butlast old)"
    by (auto simp: sublist_Cons_right)
  have "\<not> prefix old (c # a @ old @ b)"
  proof
    assume p: "prefix old (c # a @ old @ b)"
    have "c # a @ old @ b = (c # a @ butlast old) @ (last old # b)"
      using assms(1) by simp
    then have q: "prefix (c # a @ butlast old) (c # a @ old @ b)"
      by (metis prefixI)
    have "length old \<le> length (c # a @ butlast old)"
      using assms(1) by simp
    with p q have "prefix old (c # a @ butlast old)"
      by (rule prefix_length_prefix)
    with np show False by simp
  qed
  then have "py_replace old new ((c # a) @ old @ b) = c # py_replace old new (a @ old @ b)"
    using assms(1) by (simp add: py_replace.simps [of old new "c # a @ old @ b"])
  with Cons.IH [OF ns] show ?case by simp
qed

lemma updated_at_no_u: "updated_at (c # cs) = Some n \<Longrightarrow> c = CHR ''u''"
  by (auto simp: updated_at_def split: if_splits)

lemma re_sub_updated_no_u:
  "CHR ''u'' \<notin> set s \<Longrightarrow> re_sub_updated repl s = s"
proof (induction s)
  case Nil
  then show ?case by simp
next
  case (Cons c cs)
  then have "updated_at (c # cs) = None"
    using updated_at_no_u [of c cs] by (cases "updated_at (c # cs)") auto
  with Cons show ?case by simp
qed

lemmas world_defs = update_progress_log_def progress_text_def insert_or_append_def exists_def
  read_text_def write_text_def PROGRESS_def activity_marker_def sync_marker_def

text \<open>
  C7, amended. Without a log file the update returns \<open>False\<close> and changes nothing.
  With a log file it returns \<open>True\<close> and rewrites the file: the timestamped bullet line
  is inserted right after every occurrence of \<open>## Activity Log\<close> (after the first one,
  and in the same way in what follows it), or, when the marker is absent, a new section
  with the marker and the line is appended at the end; then comes the sync section for
  an action that starts with \<open>Sync\<close>, and the rewriting of the \<open>updated\<close> fields. The
  content \<open>## Activity Log\n- old line\<close> with action \<open>Did X\<close> becomes
  \<open>## Activity Log\n- <timestamp>: Did X\n- old line\<close>.
\<close>

theorem progress_log_update:
  "(\<not> exists w PROGRESS \<longrightarrow> update_progress_log ts action w = (False, w))
   \<and> (read_text w PROGRESS = Some body \<longrightarrow>
        update_progress_log ts action w =
          (True, write_text PROGRESS
             (re_sub_updated (''updated: '' @ [dquote] @ ts @ [dquote])
                (if prefix ''Sync'' action
                 then insert_or_append ''## Memory Sync Log''
                        (''- '' @ ts @ '': Documentation synchronized'')
                        (insert_or_append ''## Activity Log'' (''- '' @ ts @ '': '' @ action) body)
                 else insert_or_append ''## Activity Log'' (''- '' @ ts @ '': '' @ action) body)) w))
   \<and> (\<not> sublist ''## Activity Log'' body \<longrightarrow>
        insert_or_append ''## Activity Log'' entry body =
          body @ [newline, newline] @ ''## Activity Log'' @ [newline] @ entry)
   \<and> (\<not> sublist ''## Activity Log'' (a @ ''## Activity Lo'') \<longrightarrow>
        insert_or_append ''## Activity Log'' entry (a @ ''## Activity Log'' @ b) =
          a @ ''## Activity Log'' @ [newline] @ entry
          @ (if sublist ''## Activity Log'' b
             then insert_or_append ''## Activity Log'' entry b else b))
   \<and> (read_text w PROGRESS = Some (''## Activity Log'' @ [newline] @ ''- old line'')
        \<and> set ts \<subseteq> set ''0123456789-T:.''
      \<longrightarrow> update_progress_log ts ''Did X'' w =
            (True, write_text PROGRESS
               (''## Activity Log'' @ [newline] @ ''- '' @ ts @ '': Did X'' @ [newline] @ ''- old line'') w))"
proof (intro conjI impI)
  assume "\<not> exists w PROGRESS"
  then show "update_progress_log ts action w = (False, w)"
    by (simp add: update_progress_log_def exists_def read_text_def)
next
  assume "read_text w PROGRESS = Some body"
  then show "update_progress_log ts action w =
          (True, write_text PROGRESS
             (re_sub_updated (''updated: '' @ [dquote] @ ts @ [dquote])
                (if prefix ''Sync'' action
                 then insert_or_append ''## Memory Sync Log''
                        (''- '' @ ts @ '': Documentation synchronized'')
                        (insert_or_append ''## Activity Log'' (''- '' @ ts @ '': '' @ action) body)
                 else insert_or_append ''## Activity Log'' (''- '' @ ts @ '': '' @ action) body)) w)"
    by (simp add: update_progress_log_def progress_text_def Let_def activity_marker_def sync_marker_def)
next
  assume "\<not> sublist ''## Activity Log'' body"
  then show "insert_or_append ''## Activity Log'' entry body =
          body @ [newline, newline] @ ''## Activity Log'' @ [newline] @ entry"
    by (simp add: insert_or_append_def py_in_sublist)
next
  assume h: "\<not> sublist ''## Activity Log'' (a @ ''## Activity Lo'')"
  have "py_replace ''## Activity Log'' (''## Activity Log'' @ [newline] @ entry) (a @ ''## Activity Log'' @ b)
      = a @ (''## Activity Log'' @ [newline] @ entry)
        @ py_replace ''## Activity Log'' (''## Activity Log'' @ [newline] @ entry) b"
    using h by (intro py_replace_first) simp_all
  moreover have "sublist ''## Activity Log'' (a @ ''## Activity Log'' @ b)"
    by (rule sublist_appendI)
  moreover have "\<not> sublist ''## Activity Log'' b \<Longrightarrow>
      py_replace ''## Activity Log'' (''## Activity Log'' @ [newline] @ entry) b = b"
    by (intro py_replace_absent) simp_all
  ultimately show "insert_or_append ''## Activity Log'' entry (a @ ''## Activity Log'' @ b) =
          a @ ''## Activity Log'' @ [newline] @ entry
          @ (if sublist ''## Activity Log'' b
             then insert_or_append ''## Activity Log'' entry b else b)"
    by (simp add: insert_or_append_def py_in_sublist)
next
  assume h: "read_text w PROGRESS = Some (''## Activity Log'' @ [newline] @ ''- old line'')
        \<and> set ts \<subseteq> set ''0123456789-T:.''"
  have r: "py_replace ''## Activity Log'' (''## Activity Log'' @ [newline] @ ''- '' @ ts @ '': Did X'')
            ([] @ ''## Activity Log'' @ ([newline] @ ''- old line''))
         = [] @ (''## Activity Log'' @ [newline] @ ''- '' @ ts @ '': Did X'')
           @ py_replace ''## Activity Log'' (''## Activity Log'' @ [newline] @ ''- '' @ ts @ '': Did X'')
               ([newline] @ ''- old line'')"
    by (intro py_replace_first) (simp_all flip: py_in_sublist)
  have r2: "py_replace ''## Activity Log'' (''## Activity Log'' @ [newline] @ ''- '' @ ts @ '': Did X'')
               ([newline] @ ''- old line'') = [newline] @ ''- old line''"
    by (intro py_replace_absent) (simp_all add: newline_def flip: py_in_sublist)
  have ins: "insert_or_append ''## Activity Log'' (''- '' @ ts @ '': Did X'')
          (''## Activity Log'' @ [newline] @ ''- old line'')
        = ''## Activity Log'' @ [newline] @ ''- '' @ ts @ '': Did X'' @ [newline] @ ''- old line''"
    using r r2 by (simp add: insert_or_append_def)
  have "CHR ''u'' \<notin> set ts" using h by auto
  then have "CHR ''u'' \<notin> set (''## Activity Log'' @ [newline] @ ''- '' @ ts @ '': Did X'' @ [newline] @ ''- old line'')"
    by (simp add: newline_def)
  then have "re_sub_updated (''updated: '' @ [dquote] @ ts @ [dquote])
      (''## Activity Log'' @ [newline] @ ''- '' @ ts @ '': Did X'' @ [newline] @ ''- old line'')
      = ''## Activity Log'' @ [newline] @ ''- '' @ ts @ '': Did X'' @ [newline] @ ''- old line''"
    by (rule re_sub_updated_no_u)
  with ins h show "update_progress_log ts ''Did X'' w =
            (True, write_text PROGRESS
               (''## Activity Log'' @ [newline] @ ''- '' @ ts @ '': Did X'' @ [newline] @ ''- old line'') w)"
    by (simp add: update_progress_log_def progress_text_def Let_def activity_marker_def)
qed

theorem progress_log_update_witness:
  "\<not> exists \<lparr>files = [], out = []\<rparr> PROGRESS \<and>
   update_progress_log ''2026-01-01T00:00:00'' ''Did X'' \<lparr>files = [], out = []\<rparr>
     = (False, \<lparr>files = [], out = []\<rparr>) \<and>
   read_text \<lparr>files = [(''docs/progress.md'', ''## Activity Log'' @ [newline] @ ''- old line'')], out = []\<rparr>
     PROGRESS = Some (''## Activity Log'' @ [newline] @ ''- old line'') \<and>
   set ''2026-01-01T00:00:00'' \<subseteq> set ''0123456789-T:.'' \<and>
   update_progress_log ''2026-01-01T00:00:00'' ''Did X''
     \<lparr>files = [(''docs/progress.md'', ''## Activity Log'' @ [newline] @ ''- old line'')], out = []\<rparr>
     = (True, \<lparr>files = [(''docs/progress.md'',
          ''## Activity Log'' @ [newline] @ ''- 2026-01-01T00:00:00: Did X'' @ [newline] @ ''- old line'')],
          out = []\<rparr>) \<and>
   \<not> sublist ''## Activity Log'' ''# Log'' \<and>
   insert_or_append ''## Activity Log'' ''- now: Did X'' ''# Log''
     = ''# Log'' @ [newline, newline] @ ''## Activity Log'' @ [newline] @ ''- now: Did X'' \<and>
   \<not> sublist ''## Activity Log'' (''# Log '' @ ''## Activity Lo'') \<and>
   insert_or_append ''## Activity Log'' ''- now: Did X'' (''# Log '' @ ''## Activity Log'' @ '' end'')
     = ''# Log '' @ ''## Activity Log'' @ [newline] @ ''- now: Did X'' @ '' end''"
  using progress_log_update [of "\<lparr>files = [], out = []\<rparr>" "''2026-01-01T00:00:00''" "''Did X''"
      "''# Log''" "''- now: Did X''" "''# Log ''" "'' end''"]
    progress_log_update [of
      "\<lparr>files = [(''docs/progress.md'', ''## Activity Log'' @ [newline] @ ''- old line'')], out = []\<rparr>"
      "''2026-01-01T00:00:00''" "''Did X''" "''## Activity Log'' @ [newline] @ ''- old line''"
      "''- now: Did X''" "''# Log ''" "'' end''"]
  by (simp add: world_defs newline_def dquote_def updated_at_def py_replace.simps flip: py_in_sublist)

text \<open>
  C7 as stated fails on a second marker: \<open>str.replace\<close> replaces every occurrence, so
  the second \<open>## Activity Log\<close> gains the line too, where inserting after the first
  occurrence only would leave it as it is.
\<close>

theorem progress_log_second_marker_counterexample:
  "update_progress_log ''2026-01-01T00:00:00'' ''Did X''
     \<lparr>files = [(''docs/progress.md'',
         ''## Activity Log'' @ [newline] @ ''A'' @ [newline] @ ''## Activity Log'' @ [newline] @ ''B'')],
      out = []\<rparr>
   = (True, \<lparr>files = [(''docs/progress.md'',
         ''## Activity Log'' @ [newline] @ ''- 2026-01-01T00:00:00: Did X'' @ [newline] @ ''A'' @ [newline]
         @ ''## Activity Log'' @ [newline] @ ''- 2026-01-01T00:00:00: Did X'' @ [newline] @ ''B'')],
      out = []\<rparr>)
   \<and> spec_insert_after_first ''## Activity Log'' ([newline] @ ''- 2026-01-01T00:00:00: Did X'')
         (''## Activity Log'' @ [newline] @ ''A'' @ [newline] @ ''## Activity Log'' @ [newline] @ ''B'')
       = ''## Activity Log'' @ [newline] @ ''- 2026-01-01T00:00:00: Did X'' @ [newline] @ ''A'' @ [newline]
         @ ''## Activity Log'' @ [newline] @ ''B''
   \<and> snd (update_progress_log ''2026-01-01T00:00:00'' ''Did X''
     \<lparr>files = [(''docs/progress.md'',
         ''## Activity Log'' @ [newline] @ ''A'' @ [newline] @ ''## Activity Log'' @ [newline] @ ''B'')],
      out = []\<rparr>)
     \<noteq> \<lparr>files = [(''docs/progress.md'',
           spec_insert_after_first ''## Activity Log'' ([newline] @ ''- 2026-01-01T00:00:00: Did X'')
         (''## Activity Log'' @ [newline] @ ''A'' @ [newline] @ ''## Activity Log'' @ [newline] @ ''B''))],
         out = []\<rparr>"
  by (simp add: world_defs newline_def dquote_def updated_at_def py_replace.simps)

section \<open>Synchronising twice\<close>

lemma takeWhile_stop:
  "\<forall>x\<in>set xs. P x \<Longrightarrow> \<not> P y \<Longrightarrow> takeWhile P (xs @ y # ys) = xs"
  by (induction xs) auto

lemma path_name_append_slash:
  "CHR ''/'' \<notin> set n \<Longrightarrow> path_name (d @ CHR ''/'' # n) = n"
proof -
  assume "CHR ''/'' \<notin> set n"
  then have "takeWhile (\<lambda>c. c \<noteq> CHR ''/'') (rev n @ CHR ''/'' # rev d) = rev n"
    by (intro takeWhile_stop) auto
  then show ?thesis by (simp add: path_name_def)
qed

lemma path_name_memory: "path_name (choose_memory cfg) = ''memory.jsonl''"
proof -
  have "path_name ((HOME cfg @ ''/Library/Application Support/Claude/'' @ PROJECT cfg)
          @ CHR ''/'' # ''memory.jsonl'') = ''memory.jsonl''"
    by (rule path_name_append_slash) simp
  moreover have "path_name ((CWD cfg @ ''/.claude'') @ CHR ''/'' # ''memory.jsonl'') = ''memory.jsonl''"
    by (rule path_name_append_slash) simp
  ultimately show ?thesis
    by (simp add: choose_memory_def CLAUDE_MEM_def LOCAL_MEM_def)
qed

lemma memory_not_md: "\<not> suffix ''.md'' (path_name (choose_memory cfg))"
  by (simp add: path_name_memory suffix_to_prefix)

lemma memory_not_single:
  "choose_memory cfg \<noteq> CLIENT_SPEC" "choose_memory cfg \<noteq> ROADMAP" "choose_memory cfg \<noteq> PROGRESS"
proof -
  have "path_name CLIENT_SPEC \<noteq> ''memory.jsonl''" "path_name ROADMAP \<noteq> ''memory.jsonl''"
    "path_name PROGRESS \<noteq> ''memory.jsonl''"
    by (simp_all add: path_name_def CLIENT_SPEC_def ROADMAP_def PROGRESS_def)
  then show "choose_memory cfg \<noteq> CLIENT_SPEC" "choose_memory cfg \<noteq> ROADMAP"
    "choose_memory cfg \<noteq> PROGRESS"
    using path_name_memory [of cfg] by auto
qed

lemma map_of_update_same:
  "map_of xs p = Some v \<Longrightarrow>
   map_of (map (\<lambda>(q, old). if q = p then (q, c) else (q, old)) xs) p = Some c"
  by (induction xs) (auto split: if_splits)

lemma map_of_update_other:
  "q \<noteq> p \<Longrightarrow> map_of (map (\<lambda>(q, old). if q = p then (q, c) else (q, old)) xs) q = map_of xs q"
  by (induction xs) auto

lemma map_fst_update:
  "map (fst \<circ> (\<lambda>(q, old). if q = p then (q, c) else (q, old))) xs = map fst xs"
  by (induction xs) auto

lemma read_write_same: "read_text (write_text p c w) p = Some c"
proof (cases "map_of (files w) p")
  case None
  then show ?thesis by (simp add: read_text_def write_text_def map_add_def)
next
  case (Some old)
  then show ?thesis by (simp add: read_text_def write_text_def map_of_update_same)
qed

lemma read_write_other:
  assumes "q \<noteq> p"
  shows "read_text (write_text p c w) q = read_text w q"
proof (cases "map_of (files w) p")
  case None
  with assms show ?thesis
    by (cases "map_of (files w) q") (simp_all add: read_text_def write_text_def map_add_def)
next
  case (Some old)
  with assms show ?thesis by (simp add: read_text_def write_text_def map_of_update_other)
qed

lemma paths_write:
  "map fst (files (write_text p c w)) =
     (if map_of (files w) p = None then map fst (files w) @ [p] else map fst (files w))"
  by (simp add: write_text_def map_fst_update)


lemma glob_md_write:
  "\<not> suffix ''.md'' (path_name p) \<Longrightarrow> glob_md (write_text p c w) d = glob_md w d"
  by (simp add: glob_md_def paths_write)

lemma exists_write_other: "q \<noteq> p \<Longrightarrow> exists (write_text p c w) q = exists w q"
  using read_write_other [of q p c w] by (simp add: exists_def read_text_def)

lemma get_all_docs_write:
  assumes "\<not> suffix ''.md'' (path_name p)" and "p \<noteq> CLIENT_SPEC" and "p \<noteq> ROADMAP" and "p \<noteq> PROGRESS"
  shows "get_all_docs (write_text p c w) = get_all_docs w"
proof -
  have "filter (exists (write_text p c w)) [CLIENT_SPEC, ROADMAP, PROGRESS]
      = filter (exists w) [CLIENT_SPEC, ROADMAP, PROGRESS]"
    using assms(2-4) by (intro filter_cong) (auto simp: exists_write_other)
  then show ?thesis
    using assms(1) by (simp add: get_all_docs_def glob_md_write)
qed

lemma get_all_docs_files: "files w' = files w \<Longrightarrow> get_all_docs w' = get_all_docs w"
  by (simp add: get_all_docs_def glob_md_def exists_def)

lemma extract_metadata_files: "files w' = files w \<Longrightarrow> extract_metadata w' = extract_metadata w"
  by (rule ext) (simp add: extract_metadata_def read_text_def)

lemma memory_of_files: "files w' = files w \<Longrightarrow> memory_of w' = memory_of w"
  using get_all_docs_files [of w' w] extract_metadata_files [of w' w]
  by (simp add: memory_of_def)

lemma glob_md_shape: "p \<in> set (glob_md w d) \<Longrightarrow> suffix ''.md'' (path_name p)"
  by (simp add: glob_md_def)

lemma docs_shape:
  assumes "p \<in> set (get_all_docs w)"
  shows "p = CLIENT_SPEC \<or> p = ROADMAP \<or> p = PROGRESS \<or> suffix ''.md'' (path_name p)"
proof -
  from assms have "p \<in> set (filter (exists w) [CLIENT_SPEC, ROADMAP, PROGRESS])
      \<or> p \<in> set (concat (map (glob_md w) [PHASES, STAGES, REPORTS]))"
    by (simp only: get_all_docs_def set_append Un_iff)
  then show ?thesis
  proof
    assume "p \<in> set (filter (exists w) [CLIENT_SPEC, ROADMAP, PROGRESS])"
    then have "p \<in> set [CLIENT_SPEC, ROADMAP, PROGRESS]"
      by (simp only: set_filter mem_Collect_eq)
    then have "p = CLIENT_SPEC \<or> p = ROADMAP \<or> p = PROGRESS"
      by (simp only: list.set insert_iff empty_iff simp_thms)
    then show ?thesis by (elim disjE) (simp_all only: simp_thms)
  next
    assume "p \<in> set (concat (map (glob_md w) [PHASES, STAGES, REPORTS]))"
    then have "p \<in> set (glob_md w PHASES) \<or> p \<in> set (glob_md w STAGES)
        \<or> p \<in> set (glob_md w REPORTS)"
      by (simp only: list.map concat.simps set_append Un_iff list.set empty_iff simp_thms)
    then have "suffix ''.md'' (path_name p)"
      by (elim disjE) (erule glob_md_shape)+
    then show ?thesis by (simp only: simp_thms)
  qed
qed

lemma docs_not_memory:
  assumes "p \<in> set (get_all_docs w)"
  shows "p \<noteq> choose_memory cfg"
proof
  assume e: "p = choose_memory cfg"
  from docs_shape [OF assms] show False
    unfolding e using memory_not_md [of cfg] memory_not_single [of cfg]
    by (elim disjE) (simp_all only: simp_thms)
qed

lemma memory_of_write:
  "memory_of (write_text (choose_memory cfg) c w) = memory_of w"
proof -
  let ?w = "write_text (choose_memory cfg) c w"
  have d: "get_all_docs ?w = get_all_docs w"
    by (intro get_all_docs_write memory_not_md memory_not_single)
  have "extract_metadata ?w p = extract_metadata w p" if "p \<in> set (get_all_docs w)" for p
    using docs_not_memory [OF that, of cfg] by (simp add: extract_metadata_def read_write_other)
  then have "map (extract_metadata ?w) (get_all_docs w) = map (extract_metadata w) (get_all_docs w)"
    by (intro map_cong) simp_all
  then show ?thesis unfolding memory_of_def d by (simp only:)
qed

lemma map_update_id:
  "\<forall>(q, v)\<in>set xs. q = p \<longrightarrow> v = c \<Longrightarrow>
   map (\<lambda>(q, old). if q = p then (q, c) else (q, old)) xs = xs"
  by (induction xs) auto

lemma written_values:
  "\<forall>(q, v)\<in>set (files (write_text p c w)). q = p \<longrightarrow> v = c"
proof (cases "map_of (files w) p")
  case None
  then have "p \<notin> fst ` set (files w)" by (simp add: map_of_eq_None_iff)
  with None show ?thesis by (force simp: write_text_def)
next
  case (Some old)
  then show ?thesis by (auto simp: write_text_def split: if_splits)
qed

lemma files_print [simp]: "files (print l w) = files w"
  by (simp add: print_def)

lemma get_all_docs_print [simp]: "get_all_docs (print l w) = get_all_docs w"
  by (rule get_all_docs_files) simp

lemma extract_metadata_print [simp]: "extract_metadata (print l w) = extract_metadata w"
  by (rule extract_metadata_files) simp

lemma read_text_print [simp]: "read_text (print l w) p = read_text w p"
  by (simp add: read_text_def)

lemma exists_print [simp]: "exists (print l w) p = exists w p"
  by (simp add: exists_def)

lemma files_write_print [simp]:
  "files (write_text p c (print l w)) = files (write_text p c w)"
  by (simp add: write_text_def print_def)

lemma sync_memory_unfold:
  "sync_memory cfg ts w =
     (if get_all_docs w = []
      then print ''No documentation found.''
             (print (''Syncing documentation to memory for '' @ PROJECT cfg) w)
      else snd (update_progress_log ts
             (''Synced '' @ string_of_nat (length (filter (\<lambda>doc. doc \<noteq> None)
                 (map (extract_metadata w) (get_all_docs w)))) @ '' documents to memory'')
             (print (''Synced '' @ string_of_nat (length (create_memory_entries
                   (filter (\<lambda>doc. doc \<noteq> None) (map (extract_metadata w) (get_all_docs w)))))
                   @ '' entries to '' @ choose_memory cfg)
               (write_text (choose_memory cfg) (memory_of w)
                 (print (''Found '' @ string_of_nat (length (get_all_docs w)) @ '' documentation files'')
                   (print (''Syncing documentation to memory for '' @ PROJECT cfg) w))))))"
  by (simp add: sync_memory_def Let_def memory_of_def)

lemma files_update_absent:
  "read_text w PROGRESS = None \<Longrightarrow> update_progress_log ts action w = (False, w)"
  by (simp add: update_progress_log_def)

lemma files_sync_without_progress:
  assumes "\<not> exists w PROGRESS"
  shows "files (sync_memory cfg ts w) =
           (if get_all_docs w = [] then files w
            else files (write_text (choose_memory cfg) (memory_of w) w))"
proof (cases "get_all_docs w = []")
  case True
  then show ?thesis by (simp add: sync_memory_unfold)
next
  case False
  have np: "read_text (write_text (choose_memory cfg) c w') PROGRESS = None"
    if "read_text w' PROGRESS = None" for c w'
    using that memory_not_single(3) [of cfg] read_write_other [of PROGRESS "choose_memory cfg" c w']
    by simp
  have "read_text w PROGRESS = None"
    using assms by (simp add: read_text_def exists_def)
  then show ?thesis
    using False by (simp add: sync_memory_unfold update_progress_log_def np)
qed

text \<open>
  C8, amended. When \<open>docs/progress.md\<close> does not exist, a second sync right after a
  first one leaves every file as the first sync left it: the memory file has the same
  content after both runs, and when there are documents that content is the memory
  text of the documents.
\<close>

theorem sync_idempotent_without_progress:
  assumes "\<not> exists w PROGRESS"
  shows "files (sync_memory cfg t2 (sync_memory cfg t1 w)) = files (sync_memory cfg t1 w)
       \<and> read_text (sync_memory cfg t2 (sync_memory cfg t1 w)) (choose_memory cfg)
           = read_text (sync_memory cfg t1 w) (choose_memory cfg)
       \<and> (get_all_docs w \<noteq> [] \<longrightarrow>
            read_text (sync_memory cfg t1 w) (choose_memory cfg) = Some (memory_of w))"
proof -
  let ?w1 = "sync_memory cfg t1 w"
  let ?m = "choose_memory cfg"
  have f1: "files ?w1 = (if get_all_docs w = [] then files w
            else files (write_text ?m (memory_of w) w))"
    by (rule files_sync_without_progress [OF assms])
  have files: "files (sync_memory cfg t2 ?w1) = files ?w1"
  proof (cases "get_all_docs w = []")
    case True
    with f1 have fw: "files ?w1 = files w" by simp
    then have "\<not> exists ?w1 PROGRESS" and "get_all_docs ?w1 = []"
      using assms True get_all_docs_files [OF fw] by (simp_all add: exists_def)
    then show ?thesis using files_sync_without_progress [of ?w1 cfg t2] by simp
  next
    case False
    with f1 have fw: "files ?w1 = files (write_text ?m (memory_of w) w)" by simp
    have "exists ?w1 PROGRESS = exists (write_text ?m (memory_of w) w) PROGRESS"
      using fw by (simp add: exists_def)
    also have "\<dots> = exists w PROGRESS"
      using memory_not_single(3) [of cfg] by (intro exists_write_other) simp
    finally have np: "\<not> exists ?w1 PROGRESS" using assms by simp
    have "get_all_docs ?w1 = get_all_docs (write_text ?m (memory_of w) w)"
      by (rule get_all_docs_files [OF fw])
    also have "\<dots> = get_all_docs w"
      by (intro get_all_docs_write memory_not_md memory_not_single)
    finally have d: "get_all_docs ?w1 = get_all_docs w" .
    have "memory_of ?w1 = memory_of (write_text ?m (memory_of w) w)"
      by (rule memory_of_files [OF fw])
    also have "\<dots> = memory_of w" by (rule memory_of_write)
    finally have m: "memory_of ?w1 = memory_of w" .
    have "files (write_text ?m (memory_of w) ?w1) = files ?w1"
    proof -
      have "map_of (files (write_text ?m (memory_of w) w)) ?m = Some (memory_of w)"
        using read_write_same [of ?m "memory_of w" w] by (simp add: read_text_def)
      moreover have "map (\<lambda>(q, old). if q = ?m then (q, memory_of w) else (q, old))
          (files (write_text ?m (memory_of w) w)) = files (write_text ?m (memory_of w) w)"
        by (intro map_update_id written_values)
      ultimately show ?thesis
        using fw by (simp add: write_text_def)
    qed
    with files_sync_without_progress [OF np, of cfg t2] d m False show ?thesis by simp
  qed
  have mem: "get_all_docs w \<noteq> [] \<Longrightarrow> read_text ?w1 ?m = Some (memory_of w)"
    using f1 read_write_same [of ?m "memory_of w" w] by (simp add: read_text_def)
  from files mem show ?thesis by (simp add: read_text_def)
qed

theorem sync_idempotent_without_progress_witness:
  "\<not> exists ex_unlogged PROGRESS \<and> get_all_docs ex_unlogged \<noteq> [] \<and>
   read_text (sync_memory ex_cfg ''2026-01-01T00:00:05''
       (sync_memory ex_cfg ''2026-01-01T00:00:00'' ex_unlogged)) (choose_memory ex_cfg)
     = Some (memory_text
         [Entity ''Client Specification'' ''Spec'' [''# Client Specification''],
          Entity ''Stage 2.1: Auth'' ''Stage'' [''# Stage 2.1: Auth'']]) \<and>
   read_text (sync_memory ex_cfg ''2026-01-01T00:00:00'' ex_unlogged) (choose_memory ex_cfg)
     = Some (memory_text
         [Entity ''Client Specification'' ''Spec'' [''# Client Specification''],
          Entity ''Stage 2.1: Auth'' ''Stage'' [''# Stage 2.1: Auth'']])"
proof -
  have a: "\<not> exists ex_unlogged PROGRESS"
    by code_simp
  have b: "get_all_docs ex_unlogged \<noteq> []"
    by code_simp
  have c: "memory_of ex_unlogged = memory_text
         [Entity ''Client Specification'' ''Spec'' [''# Client Specification''],
          Entity ''Stage 2.1: Auth'' ''Stage'' [''# Stage 2.1: Auth'']]"
    by code_simp
  from sync_idempotent_without_progress [OF a, of ex_cfg "''2026-01-01T00:00:05''"
      "''2026-01-01T00:00:00''"] a b c
  show ?thesis by simp
qed

text \<open>
  C8 as stated fails when \<open>docs/progress.md\<close> exists: the first sync writes its
  timestamped lines into that file, which is itself one of the documents, so the second
  sync, run with no document touched in between, writes a different memory file.
\<close>

theorem sync_twice_counterexample:
  "exists ex_logged PROGRESS \<and>
   read_text (sync_memory ex_cfg ''2026-01-01T00:00:00'' ex_logged) (choose_memory ex_cfg)
     = Some (memory_text [Entity ''Log'' ''Progress'' [''# Log'']]) \<and>
   read_text (sync_memory ex_cfg ''2026-01-01T00:00:05''
       (sync_memory ex_cfg ''2026-01-01T00:00:00'' ex_logged)) (choose_memory ex_cfg)
     = Some (memory_text [Entity ''Log'' ''Progress''
         [''# Log'' @ [newline, newline] @ ''## Activity Log'' @ [newline]
          @ ''- 2026-01-01T00:00:00: Synced 1 documents to memory'' @ [newline, newline]
          @ ''## Memory Sync Log'' @ [newline]
          @ ''- 2026-01-01T00:00:00: Documentation synchronized'']]) \<and>
   read_text (sync_memory ex_cfg ''2026-01-01T00:00:05''
       (sync_memory ex_cfg ''2026-01-01T00:00:00'' ex_logged)) (choose_memory ex_cfg)
     \<noteq> read_text (sync_memory ex_cfg ''2026-01-01T00:00:00'' ex_logged) (choose_memory ex_cfg)"
  by code_simp

section \<open>Creating a stage twice\<close>

lemma exists_write_mono: "exists w q \<Longrightarrow> exists (write_text p c w) q"
proof (cases "q = p")
  case True
  then show ?thesis using read_write_same [of p c w] by (simp add: exists_def read_text_def)
next
  case False
  assume "exists w q"
  with False show ?thesis by (simp add: exists_write_other)
qed

lemma exists_written: "exists (write_text p c w) p"
  using read_write_same [of p c w] by (simp add: exists_def read_text_def)

lemma exists_update_progress_log:
  "exists w q \<Longrightarrow> exists (snd (update_progress_log ts action w)) q"
  by (cases "read_text w PROGRESS") (simp_all add: update_progress_log_def exists_write_mono)

lemma create_stage_existing:
  "exists w (stage_file_of phase stage name) \<Longrightarrow>
   create_stage ext ts phase stage name w =
     (Returned, print (''Error: '' @ stage_file_of phase stage name @ '' already exists.'') w)"
  by (simp add: create_stage_def Let_def)

lemma create_stage_returned_exists:
  assumes "create_stage ext ts phase stage name w = (Returned, w1)"
  shows "exists w1 (stage_file_of phase stage name)"
proof (cases "exists w (stage_file_of phase stage name)")
  case True
  with assms show ?thesis by (auto simp: create_stage_existing)
next
  case False
  let ?f = "stage_file_of phase stage name"
  obtain w' body where w1: "w1 = snd (update_progress_log ts
      (''Created stage document: Stage '' @ string_of_int phase @ ''.'' @ string_of_int stage
        @ '': '' @ name)
      (print (''Created stage document: '' @ ?f) (write_text ?f body w')))"
    using assms False
    by (auto simp: create_stage_def Let_def split: option.splits if_splits)
  have "exists (print (''Created stage document: '' @ ?f) (write_text ?f body w')) ?f"
    by (simp add: exists_written)
  then show ?thesis unfolding w1 by (rule exists_update_progress_log)
qed

text \<open>
  C9. When the stage file for a phase, stage and name exists, \<open>create_stage\<close> prints
  the already-exists error and returns, with every file as it was: the stage file keeps
  its content and the progress log is not updated. A call that returned leaves the
  stage file in place, so a second call with the same phase, stage and name is such a
  refused call.
\<close>

theorem create_stage_refuses_overwrite:
  "(exists w (stage_file_of phase stage name) \<longrightarrow>
      create_stage ext ts phase stage name w =
        (Returned, print (''Error: '' @ stage_file_of phase stage name @ '' already exists.'') w)
      \<and> files (snd (create_stage ext ts phase stage name w)) = files w)
   \<and> (create_stage ext ts phase stage name w = (Returned, w1) \<longrightarrow>
      create_stage ext ts2 phase stage name w1 =
        (Returned, print (''Error: '' @ stage_file_of phase stage name @ '' already exists.'') w1)
      \<and> files (snd (create_stage ext ts2 phase stage name w1)) = files w1)"
  using create_stage_existing create_stage_returned_exists
  by (auto simp: files_print)

theorem create_stage_refuses_overwrite_witness:
  "exists \<lparr>files = [(''docs/stages/stage1_1-project-setup.md'', ''# first'')], out = []\<rparr>
     (stage_file_of 1 1 ''Project Setup'') \<and>
   create_stage ex_ext ''2026-01-01T00:00:05'' 1 1 ''Project Setup''
     \<lparr>files = [(''docs/stages/stage1_1-project-setup.md'', ''# first'')], out = []\<rparr>
     = (Returned, \<lparr>files = [(''docs/stages/stage1_1-project-setup.md'', ''# first'')],
                   out = [''Error: docs/stages/stage1_1-project-setup.md already exists.'']\<rparr>) \<and>
   create_stage ex_ext ''2026-01-01T00:00:00'' 1 1 ''Project Setup'' ex_logged
     = (Returned,
        \<lparr>files = [(''docs/progress.md'',
                   ''# Log'' @ [newline, newline] @ ''## Activity Log'' @ [newline]
                   @ ''- 2026-01-01T00:00:00: Created stage document: Stage 1.1: Project Setup''),
                  (''docs/stages/stage1_1-project-setup.md'', ''# STAGE: Project Setup'')],
         out = [''Using built-in template (no file found at templates/stage_template.md)'',
                ''Created stage document: docs/stages/stage1_1-project-setup.md'']\<rparr>) \<and>
   create_stage ex_ext ''2026-01-01T00:00:05'' 1 1 ''Project Setup''
        \<lparr>files = [(''docs/progress.md'',
                   ''# Log'' @ [newline, newline] @ ''## Activity Log'' @ [newline]
                   @ ''- 2026-01-01T00:00:00: Created stage document: Stage 1.1: Project Setup''),
                  (''docs/stages/stage1_1-project-setup.md'', ''# STAGE: Project Setup'')],
         out = [''Using built-in template (no file found at templates/stage_template.md)'',
                ''Created stage document: docs/stages/stage1_1-project-setup.md'']\<rparr>
     = (Returned,
        \<lparr>files = [(''docs/progress.md'',
                   ''# Log'' @ [newline, newline] @ ''## Activity Log'' @ [newline]
                   @ ''- 2026-01-01T00:00:00: Created stage document: Stage 1.1: Project Setup''),
                  (''docs/stages/stage1_1-project-setup.md'', ''# STAGE: Project Setup'')],
         out = [''Using built-in template (no file found at templates/stage_template.md)'',
                ''Created stage document: docs/stages/stage1_1-project-setup.md'',
                ''Error: docs/stages/stage1_1-project-setup.md already exists.'']\<rparr>)"
proof -
  let ?w = "\<lparr>files = [(''docs/stages/stage1_1-project-setup.md'', ''# first'')], out = []\<rparr>"
  let ?w1 = "\<lparr>files = [(''docs/progress.md'',
                   ''# Log'' @ [newline, newline] @ ''## Activity Log'' @ [newline]
                   @ ''- 2026-01-01T00:00:00: Created stage document: Stage 1.1: Project Setup''),
                  (''docs/stages/stage1_1-project-setup.md'', ''# STAGE: Project Setup'')],
         out = [''Using built-in template (no file found at templates/stage_template.md)'',
                ''Created stage document: docs/stages/stage1_1-project-setup.md'']\<rparr>"
  have f: "stage_file_of 1 1 ''Project Setup'' = ''docs/stages/stage1_1-project-setup.md''"
    by code_simp
  have a: "exists ?w (stage_file_of 1 1 ''Project Setup'')"
    by code_simp
  have b: "create_stage ex_ext ''2026-01-01T00:00:00'' 1 1 ''Project Setup'' ex_logged = (Returned, ?w1)"
    by code_simp
  from create_stage_refuses_overwrite [of ?w 1 1 "''Project Setup''" ex_ext "''2026-01-01T00:00:05''"]
    create_stage_refuses_overwrite [of ex_logged 1 1 "''Project Setup''" ex_ext "''2026-01-01T00:00:00''"
        ?w1 "''2026-01-01T00:00:05''"]
    a b f
  show ?thesis by (simp add: print_def)
qed

section \<open>Presence checks of the command line\<close>

text \<open>
  C10. For \<open>--create-stage\<close> (without \<open>--setup\<close> and \<open>--sync\<close>), a phase or stage of
  \<open>0\<close> or an empty name makes \<open>main\<close> print the usage error and exit with status 1,
  with no file created, exactly as when that argument is omitted; the same holds for a
  phase or stage of \<open>0\<close> with \<open>--create-report\<close>.
\<close>

theorem falsy_arguments_are_missing:
  "(\<not> arg_setup a \<and> \<not> arg_sync a \<and> arg_create_stage a
      \<and> (arg_phase a = Some 0 \<or> arg_stage a = Some 0 \<or> arg_name a = Some [])
     \<longrightarrow> main ext cfg ts a w = (Exited 1, print_all stage_usage w)
         \<and> files (snd (main ext cfg ts a w)) = files w
         \<and> (arg_phase a = Some 0 \<longrightarrow> main ext cfg ts a w = main ext cfg ts (a\<lparr>arg_phase := None\<rparr>) w)
         \<and> (arg_stage a = Some 0 \<longrightarrow> main ext cfg ts a w = main ext cfg ts (a\<lparr>arg_stage := None\<rparr>) w)
         \<and> (arg_name a = Some [] \<longrightarrow> main ext cfg ts a w = main ext cfg ts (a\<lparr>arg_name := None\<rparr>) w))
   \<and> (\<not> arg_setup a \<and> \<not> arg_sync a \<and> \<not> arg_create_stage a \<and> arg_create_report a
      \<and> (arg_phase a = Some 0 \<or> arg_stage a = Some 0)
     \<longrightarrow> main ext cfg ts a w = (Exited 1, print_all report_usage w)
         \<and> files (snd (main ext cfg ts a w)) = files w
         \<and> (arg_phase a = Some 0 \<longrightarrow> main ext cfg ts a w = main ext cfg ts (a\<lparr>arg_phase := None\<rparr>) w)
         \<and> (arg_stage a = Some 0 \<longrightarrow> main ext cfg ts a w = main ext cfg ts (a\<lparr>arg_stage := None\<rparr>) w))"
proof -
  have fp: "files (print_all ls w) = files w" for ls
    by (induction ls arbitrary: w) (simp_all add: print_all_def)
  show ?thesis
    by (auto simp: main_def not_int_def not_str_def fp)
qed

theorem falsy_arguments_are_missing_witness:
  "main ex_ext ex_cfg ''2026-01-01T00:00:00''
     \<lparr>arg_setup = False, arg_sync = False, arg_create_stage = True, arg_create_report = False,
      arg_phase = Some 0, arg_stage = Some 1, arg_name = Some ''Setup''\<rparr> \<lparr>files = [], out = []\<rparr>
   = (Exited 1, \<lparr>files = [], out = stage_usage\<rparr>) \<and>
   main ex_ext ex_cfg ''2026-01-01T00:00:00''
     \<lparr>arg_setup = False, arg_sync = False, arg_create_stage = True, arg_create_report = False,
      arg_phase = None, arg_stage = Some 1, arg_name = Some ''Setup''\<rparr> \<lparr>files = [], out = []\<rparr>
   = (Exited 1, \<lparr>files = [], out = stage_usage\<rparr>) \<and>
   main ex_ext ex_cfg ''2026-01-01T00:00:00''
     \<lparr>arg_setup = False, arg_sync = False, arg_create_stage = True, arg_create_report = False,
      arg_phase = Some 1, arg_stage = Some 1, arg_name = Some []\<rparr> \<lparr>files = [], out = []\<rparr>
   = (Exited 1, \<lparr>files = [], out = stage_usage\<rparr>) \<and>
   main ex_ext ex_cfg ''2026-01-01T00:00:00''
     \<lparr>arg_setup = False, arg_sync = False, arg_create_stage = False, arg_create_report = True,
      arg_phase = Some 1, arg_stage = Some 0, arg_name = None\<rparr> \<lparr>files = [], out = []\<rparr>
   = (Exited 1, \<lparr>files = [], out = report_usage\<rparr>) \<and>
   fst (main ex_ext ex_cfg ''2026-01-01T00:00:00''
     \<lparr>arg_setup = False, arg_sync = False, arg_create_stage = True, arg_create_report = False,
      arg_phase = Some 1, arg_stage = Some 1, arg_name = Some ''Setup''\<rparr> \<lparr>files = [], out = []\<rparr>)
   = Returned"
  using falsy_arguments_are_missing [of
     "\<lparr>arg_setup = False, arg_sync = False, arg_create_stage = True, arg_create_report = False,
      arg_phase = Some 0, arg_stage = Some 1, arg_name = Some ''Setup''\<rparr>"
     ex_ext ex_cfg "''2026-01-01T00:00:00''" "\<lparr>files = [], out = []\<rparr>"]
   falsy_arguments_are_missing [of
     "\<lparr>arg_setup = False, arg_sync = False, arg_create_stage = True, arg_create_report = False,
      arg_phase = Some 1, arg_stage = Some 1, arg_name = Some []\<rparr>"
     ex_ext ex_cfg "''2026-01-01T00:00:00''" "\<lparr>files = [], out = []\<rparr>"]
   falsy_arguments_are_missing [of
     "\<lparr>arg_setup = False, arg_sync = False, arg_create_stage = False, arg_create_report = True,
      arg_phase = Some 1, arg_stage = Some 0, arg_name = None\<rparr>"
     ex_ext ex_cfg "''2026-01-01T00:00:00''" "\<lparr>files = [], out = []\<rparr>"]
  by (simp add: print_all_def print_def stage_usage_def report_usage_def main_def create_stage_def
      not_int_def not_str_def ex_ext_def exists_def Let_def)

end
